theory Spec2Isabelle
  imports Main "HOL-Library.AList" "HOL-Library.Word"
begin

section \<open>Package metrics: constants\<close>

text \<open>The constant block of \<^verbatim>\<open>pkg/controller/metrics/metrics.go\<close>.\<close>

definition metricNamespace :: string where
  "metricNamespace = ''compliance_operator''"

definition metricNameComplianceScanStatus :: string where
  "metricNameComplianceScanStatus = ''compliance_scan_status_total''"

definition metricNameComplianceScanError :: string where
  "metricNameComplianceScanError = ''compliance_scan_error_total''"

definition metricNameComplianceRemediationStatus :: string where
  "metricNameComplianceRemediationStatus = ''compliance_remediation_status_total''"

definition metricNameComplianceStateGauge :: string where
  "metricNameComplianceStateGauge = ''compliance_state''"

definition metricLabelScanResult :: string where
  "metricLabelScanResult = ''result''"

definition metricLabelScanName :: string where
  "metricLabelScanName = ''name''"

definition metricLabelSuiteName :: string where
  "metricLabelSuiteName = ''name''"

definition metricLabelScanPhase :: string where
  "metricLabelScanPhase = ''phase''"

definition metricLabelScanError :: string where
  "metricLabelScanError = ''error''"

definition metricLabelRemediationName :: string where
  "metricLabelRemediationName = ''name''"

definition metricLabelRemediationState :: string where
  "metricLabelRemediationState = ''state''"

definition HandlerPath :: string where
  "HandlerPath = ''/metrics-co''"

definition ControllerMetricsServiceName :: string where
  "ControllerMetricsServiceName = ''metrics-co''"

definition ControllerMetricsPort :: nat where
  "ControllerMetricsPort = 8585"

definition MetricsAddrListen :: string where
  "MetricsAddrListen = '':8585''"

text \<open>The \<^verbatim>\<open>iota\<close> block: the four ordinals of the compliance-state gauge.\<close>

definition METRIC_STATE_COMPLIANT :: nat where
  "METRIC_STATE_COMPLIANT = 0"

definition METRIC_STATE_NON_COMPLIANT :: nat where
  "METRIC_STATE_NON_COMPLIANT = 1"

definition METRIC_STATE_INCONSISTENT :: nat where
  "METRIC_STATE_INCONSISTENT = 2"

definition METRIC_STATE_ERROR :: nat where
  "METRIC_STATE_ERROR = 3"

section \<open>Instruments, collectors and errors\<close>

text \<open>
  A \<^verbatim>\<open>*prometheus.CounterVec\<close> or \<^verbatim>\<open>*prometheus.GaugeVec\<close> is a pointer to an object
  with an immutable descriptor and a mutable family of children, one per tuple of label
  values. The pointer is modelled by the address of the object together with the
  descriptor fixed at allocation; the children live in the store of the world below,
  under that address. Go pointers obtained from a constructor are never dangling, so the
  store is total.
\<close>

type_synonym addr = nat

record Desc =
  fqName :: string
  helpText :: string
  variableLabels :: "string list"

datatype CounterVec = CounterVec (cv_addr: addr) (cv_desc: Desc)

datatype GaugeVec = GaugeVec (gv_addr: addr) (gv_desc: Desc)

text \<open>A child of a vector: the vector's address and the tuple of label values.\<close>

datatype Counter = Counter addr "string list"

datatype Gauge = Gauge addr "string list"

text \<open>The interface \<^verbatim>\<open>prometheus.Collector\<close>, implemented by both vector types.\<close>

datatype Collector = CounterVecCollector CounterVec | GaugeVecCollector GaugeVec

fun collector_addr :: "Collector \<Rightarrow> addr" where
  "collector_addr (CounterVecCollector cv) = cv_addr cv"
| "collector_addr (GaugeVecCollector gv) = gv_addr gv"

fun collector_desc :: "Collector \<Rightarrow> Desc" where
  "collector_desc (CounterVecCollector cv) = cv_desc cv"
| "collector_desc (GaugeVecCollector gv) = gv_desc gv"

text \<open>
  Errors are values. \<open>DuplicateRegistration\<close> carries the fully-qualified name that was
  already registered; \<open>Wrapf e s\<close> is \<^verbatim>\<open>errors.Wrapf(e, ...)\<close> with the rendered message
  \<open>s\<close>; \<open>ListenerFailure\<close> stands for whatever the HTTPS listener reports (unreadable
  certificate, failed bind, abnormal termination).
\<close>

datatype error =
    DuplicateRegistration string
  | ListenerFailure string
  | Wrapf error string

text \<open>Log messages keep the format string and its arguments apart.\<close>

datatype fmt_arg = ArgString string | ArgCollector Collector | ArgError error

datatype message = Literal string | Sprintf string "fmt_arg list"

section \<open>The world outside the package\<close>

text \<open>
  \<^verbatim>\<open>tls.Config\<close> and \<^verbatim>\<open>http.Server\<close>, with the fields the package sets and those the
  hardening function of library-go may touch; every other field keeps its zero value.
\<close>

record tls_config =
  MinVersion :: "16 word"
  NextProtos :: "string list"
  CipherSuites :: "16 word list"
  PreferServerCipherSuites :: bool

record http_server =
  Addr :: string
  TLSConfig :: tls_config

definition VersionTLS12 :: "16 word" where
  "VersionTLS12 = 0x0303"

text \<open>The handler returned by \<^verbatim>\<open>promhttp.Handler()\<close>: it serves the default registry.\<close>

datatype handler = promhttp_Handler

text \<open>
  What the package emits: entries of the structured logger (logger name, message) and the
  call that hands the server to the HTTPS listener.
\<close>

datatype event =
    LogInfo string message
  | LogError string error message
  | Call_ListenAndServeTLS http_server string string

text \<open>
  The state that a registry adapter may touch: the process-wide default registry and the
  output of the standard logger.
\<close>

record lib_state =
  registry :: "Collector list"
  stdlog :: "message list"

text \<open>
  The whole process state: the library state, the children of every allocated vector
  (label values and current value, in order of creation), the next free address, the
  patterns bound on \<^verbatim>\<open>http.DefaultServeMux\<close>, and the trace of events.
\<close>

record world =
  lib :: lib_state
  series :: "addr \<Rightarrow> (string list \<times> nat) list"
  next_addr :: addr
  mux :: "(string \<times> handler) list"
  trace :: "event list"

definition log_Info :: "string \<Rightarrow> message \<Rightarrow> world \<Rightarrow> world" where
  "log_Info logger msg w = w\<lparr>trace := trace w @ [LogInfo logger msg]\<rparr>"

definition log_Error :: "string \<Rightarrow> error \<Rightarrow> message \<Rightarrow> world \<Rightarrow> world" where
  "log_Error logger err msg w = w\<lparr>trace := trace w @ [LogError logger err msg]\<rparr>"

definition log_Printf :: "string \<Rightarrow> fmt_arg list \<Rightarrow> lib_state \<Rightarrow> lib_state" where
  "log_Printf fmt args l = l\<lparr>stdlog := stdlog l @ [Sprintf fmt args]\<rparr>"

subsection \<open>The instrument primitives of the metrics library\<close>

text \<open>
  The constructors and operations of counter and gauge vectors belong to the Prometheus
  client library, which is not part of the repository; the definitions of this subsection
  follow the data model of the spec. Every value this package writes is a small natural
  number, so values are naturals (the library stores 64-bit numbers).
\<close>

text \<open>
  Modelled from the spec: the library function \<^verbatim>\<open>BuildFQName\<close> is missing. The spec
  parameterises each instrument with a namespace prefix and a stable metric name; the
  fully-qualified name joins the two with an underscore (there is no subsystem).
\<close>

definition BuildFQName :: "string \<Rightarrow> string \<Rightarrow> string" where
  "BuildFQName ns name = (if name = [] then [] else if ns = [] then name else ns @ ''_'' @ name)"

text \<open>
  Modelled from the spec: the allocation done by the library constructors is missing. An
  instrument is allocated once, at the next free address, and no data point can be
  observed on it until an increment or set occurs.
\<close>

definition alloc_vec :: "world \<Rightarrow> addr \<times> world" where
  "alloc_vec w =
     (next_addr w, w\<lparr>series := (series w)(next_addr w := []), next_addr := Suc (next_addr w)\<rparr>)"

text \<open>
  Modelled from the spec: the library constructor \<^verbatim>\<open>NewCounterVec\<close> is missing. It takes
  the metric name, the namespace, the help string and the label names, in the order in
  which the package passes them, and never fails.
\<close>

definition NewCounterVec :: "string \<Rightarrow> string \<Rightarrow> string \<Rightarrow> string list \<Rightarrow> world \<Rightarrow> CounterVec \<times> world"
  where
  "NewCounterVec name ns hlp labelNames w =
     (let (a, w') = alloc_vec w
      in (CounterVec a \<lparr>fqName = BuildFQName ns name, helpText = hlp, variableLabels = labelNames\<rparr>, w'))"

text \<open>
  Modelled from the spec: the library constructor \<^verbatim>\<open>NewGaugeVec\<close> is missing; it is the
  constructor of counter vectors for gauges.
\<close>

definition NewGaugeVec :: "string \<Rightarrow> string \<Rightarrow> string \<Rightarrow> string list \<Rightarrow> world \<Rightarrow> GaugeVec \<times> world"
  where
  "NewGaugeVec name ns hlp labelNames w =
     (let (a, w') = alloc_vec w
      in (GaugeVec a \<lparr>fqName = BuildFQName ns name, helpText = hlp, variableLabels = labelNames\<rparr>, w'))"

text \<open>
  \<^verbatim>\<open>prometheus.Labels\<close> is a Go map from label name to label value, written here as the
  list of its entries.
\<close>

type_synonym Labels = "(string \<times> string) list"

text \<open>
  Modelled from the spec: the library's resolution of a label map is missing. An
  instrument is keyed by the tuple of the values of its label names, in their fixed order;
  a label map that does not give exactly the declared names addresses no tuple, and the
  library panics, which is the value \<open>None\<close>.
\<close>

definition label_values :: "string list \<Rightarrow> Labels \<Rightarrow> string list option" where
  "label_values names labels =
     (if length labels \<noteq> length names then None else those (map (map_of labels) names))"

text \<open>
  Modelled from the spec: the library's lookup of a child is missing. A child is created
  lazily, with value zero, on the first observation of its tuple and persists from then
  on.
\<close>

definition get_or_create :: "addr \<Rightarrow> string list \<Rightarrow> world \<Rightarrow> world" where
  "get_or_create a lvs w =
     (case map_of (series w a) lvs of
        Some v \<Rightarrow> w
      | None \<Rightarrow> w\<lparr>series := (series w)(a := series w a @ [(lvs, 0)])\<rparr>)"

text \<open>
  Modelled from the spec: the library method \<^verbatim>\<open>CounterVec.With\<close> is missing. It yields
  the child for the tuple named by the label map, creating it when absent.
\<close>

definition CounterVec_With :: "CounterVec \<Rightarrow> Labels \<Rightarrow> world \<Rightarrow> (Counter \<times> world) option" where
  "CounterVec_With cv labels w =
     (case label_values (variableLabels (cv_desc cv)) labels of
        None \<Rightarrow> None
      | Some lvs \<Rightarrow> Some (Counter (cv_addr cv) lvs, get_or_create (cv_addr cv) lvs w))"

text \<open>
  Modelled from the spec: the library method \<^verbatim>\<open>GaugeVec.WithLabelValues\<close> is missing. It
  yields the child for the tuple of values given in the order of the label names, creating
  it when absent; a tuple of the wrong length is a panic.
\<close>

definition GaugeVec_WithLabelValues :: "GaugeVec \<Rightarrow> string list \<Rightarrow> world \<Rightarrow> (Gauge \<times> world) option"
  where
  "GaugeVec_WithLabelValues gv lvs w =
     (if length lvs \<noteq> length (variableLabels (gv_desc gv)) then None
      else Some (Gauge (gv_addr gv) lvs, get_or_create (gv_addr gv) lvs w))"

text \<open>
  Modelled from the spec: the library method \<^verbatim>\<open>Counter.Inc\<close> is missing. It adds one to
  the child.
\<close>

fun Counter_Inc :: "Counter \<Rightarrow> world \<Rightarrow> world" where
  "Counter_Inc (Counter a lvs) w =
     w\<lparr>series := (series w)(a := AList.map_entry lvs Suc (series w a))\<rparr>"

text \<open>
  Modelled from the spec: the library method \<^verbatim>\<open>Gauge.Set\<close> is missing. It overwrites the
  value of the child.
\<close>

fun Gauge_Set :: "Gauge \<Rightarrow> nat \<Rightarrow> world \<Rightarrow> world" where
  "Gauge_Set (Gauge a lvs) v w =
     w\<lparr>series := (series w)(a := AList.map_entry lvs (\<lambda>_. v) (series w a))\<rparr>"

text \<open>
  Reading an instrument: \<open>sample\<close> is the child as a scrape would see it (\<open>None\<close> when the
  tuple was never observed), \<open>reading\<close> counts an absent child as zero.
\<close>

definition sample :: "world \<Rightarrow> addr \<Rightarrow> string list \<Rightarrow> nat option" where
  "sample w a lvs = map_of (series w a) lvs"

definition reading :: "world \<Rightarrow> addr \<Rightarrow> string list \<Rightarrow> nat" where
  "reading w a lvs = (case sample w a lvs of None \<Rightarrow> 0 | Some v \<Rightarrow> v)"

subsection \<open>The process-wide registry and the scrape\<close>

text \<open>The identities (fully-qualified names) that a registry holds.\<close>

definition registered_names :: "lib_state \<Rightarrow> string list" where
  "registered_names l = map (\<lambda>c. fqName (collector_desc c)) (registry l)"

text \<open>
  Modelled from the spec: \<^verbatim>\<open>prometheus.Register\<close> of the Prometheus client library is
  missing. Following the contract of the registry in the spec, registering an instrument
  identity that the registry already holds fails with a duplicate-registration error and
  leaves the registry as it was; any other collector is added. The identity of an
  instrument is its fully-qualified name.
\<close>

definition prometheus_Register :: "Collector \<Rightarrow> lib_state \<Rightarrow> error option \<times> lib_state" where
  "prometheus_Register c l =
     (if fqName (collector_desc c) \<in> set (registered_names l)
      then (Some (DuplicateRegistration (fqName (collector_desc c))), l)
      else (None, l\<lparr>registry := registry l @ [c]\<rparr>))"

type_synonym scrape_line = "string \<times> (string \<times> string) list \<times> nat"

text \<open>
  Modelled from the spec: the scrape handler of the Prometheus client library is missing.
  Following the spec, the body of a scrape has one line (instrument name, label set,
  value) for each data point of a registered instrument, and a tuple that was never
  observed does not appear.
\<close>

definition scrape_collector :: "world \<Rightarrow> Collector \<Rightarrow> scrape_line list" where
  "scrape_collector w c =
     map (\<lambda>(lvs, v). (fqName (collector_desc c), zip (variableLabels (collector_desc c)) lvs, v))
       (series w (collector_addr c))"

text \<open>
  Modelled from the spec: the scrape of the whole registry, missing with the handler, is
  the scrape of each registered collector in turn.
\<close>

definition scrape :: "world \<Rightarrow> scrape_line list" where
  "scrape w = concat (map (scrape_collector w) (registry (lib w)))"

text \<open>The instrument names that occur in a scrape.\<close>

definition visible_names :: "world \<Rightarrow> string set" where
  "visible_names w = fst ` set (scrape w)"

subsection \<open>The default HTTP mux, the TLS hardening and the listener\<close>

text \<open>
  \<^verbatim>\<open>http.Handle\<close> belongs to the Go standard library, which is not part of the repository
  and of which the spec says nothing. It binds a handler on the process-global default
  mux, and its documented contract is followed: when a handler already exists for the
  pattern the call panics (the value \<open>None\<close>), otherwise the pattern is bound.
\<close>

definition http_Handle :: "string \<Rightarrow> handler \<Rightarrow> world \<Rightarrow> world option" where
  "http_Handle pattern h w =
     (if pattern \<in> fst ` set (mux w) then None else Some (w\<lparr>mux := mux w @ [(pattern, h)]\<rparr>))"

text \<open>
  What happens once a server is handed to \<^verbatim>\<open>ListenAndServeTLS\<close> is decided by the
  surroundings (file system, network, whoever closes the server): the call either keeps
  serving and does not return, or stops and returns its error value.
\<close>

datatype listen = Serves | Stops "error option"

text \<open>
  The surroundings of \<^verbatim>\<open>Start\<close>, taken as parameters: the hardening function
  \<^verbatim>\<open>SecureTLSConfig\<close> of library-go and the behaviour of the HTTPS listener for a given
  server, certificate file and key file.
\<close>

record env =
  SecureTLSConfig :: "tls_config \<Rightarrow> tls_config"
  ListenAndServeTLS :: "http_server \<Rightarrow> string \<Rightarrow> string \<Rightarrow> listen"

text \<open>
  A \<^verbatim>\<open>context.Context\<close>, reduced to what a callee can observe of it: whether it is
  cancelled while the callee runs.
\<close>

record Context =
  cancelled :: bool

text \<open>How a call that may block or panic ends.\<close>

datatype 'a outcome = Returned 'a | Panicked | Blocked

section \<open>Package metrics: the Reporter\<close>

subsection \<open>The registry adapter\<close>

text \<open>
  The interface \<^verbatim>\<open>impl\<close> is the seam between the Reporter and the registry. Only its
  method \<^verbatim>\<open>Register\<close> is called by the Reporter, so an implementation is given by that
  method, a function on the library state. \<open>defaultImpl_Register\<close> is the method of
  \<^verbatim>\<open>defaultImpl\<close>.
\<close>

type_synonym impl = "Collector \<Rightarrow> lib_state \<Rightarrow> error option \<times> lib_state"

definition defaultImpl_Register :: impl where
  "defaultImpl_Register c l =
     (let l1 = log_Printf ''Attempting to register metric: %s'' [ArgCollector c] l;
          (err, l2) = prometheus_Register c l1
      in case err of
           Some e \<Rightarrow>
             (err, log_Printf ''Failed to register metric: %s, error: %v'' [ArgCollector c, ArgError e] l2)
         | None \<Rightarrow>
             (err, log_Printf ''Successfully registered metric: %s'' [ArgCollector c] l2))"

subsection \<open>Construction\<close>

record ControllerMetrics =
  metricComplianceScanError :: CounterVec
  metricComplianceScanStatus :: CounterVec
  metricComplianceRemediationStatus :: CounterVec
  metricComplianceStateGauge :: GaugeVec

record Metrics =
  impl :: impl
  log :: string
  metrics :: ControllerMetrics

definition DefaultControllerMetrics :: "world \<Rightarrow> ControllerMetrics \<times> world" where
  "DefaultControllerMetrics w0 =
     (let lg = ''DefaultControllerMetrics'';
          w1 = log_Info lg (Literal ''Initializing default controller metrics'') w0;
          w2 = log_Info lg (Literal ''Creating metricComplianceScanError'') w1;
          (scanError, w3) =
            NewCounterVec metricNameComplianceScanError metricNamespace
              ''A counter for the total number of errors for a particular scan''
              [metricLabelScanName] w2;
          w4 = log_Info lg (Literal ''Creating metricComplianceScanStatus'') w3;
          (scanStatus, w5) =
            NewCounterVec metricNameComplianceScanStatus metricNamespace
              ''A counter for the total number of updates to the status of a ComplianceScan''
              [metricLabelScanName, metricLabelScanPhase, metricLabelScanResult] w4;
          w6 = log_Info lg (Literal ''Creating metricComplianceRemediationStatus'') w5;
          (remediationStatus, w7) =
            NewCounterVec metricNameComplianceRemediationStatus metricNamespace
              ''A counter for the total number of updates to the status of a ComplianceRemediation''
              [metricLabelRemediationName, metricLabelRemediationState] w6;
          w8 = log_Info lg (Literal ''Creating metricComplianceStateGauge'') w7;
          (stateGauge, w9) =
            NewGaugeVec metricNameComplianceStateGauge metricNamespace
              ''A gauge for the compliance state of a ComplianceSuite. Set to 0 when COMPLIANT, 1 when NON-COMPLIANT, 2 when INCONSISTENT, and 3 when ERROR''
              [metricLabelSuiteName] w8;
          w10 = log_Info lg (Literal ''Default controller metrics initialization complete'') w9
      in (\<lparr>metricComplianceScanError = scanError,
           metricComplianceScanStatus = scanStatus,
           metricComplianceRemediationStatus = remediationStatus,
           metricComplianceStateGauge = stateGauge\<rparr>, w10))"

definition NewMetrics :: "impl \<Rightarrow> world \<Rightarrow> Metrics \<times> world" where
  "NewMetrics imp w =
     (let (cm, w') = DefaultControllerMetrics w
      in (\<lparr>impl = imp, log = ''metrics'', metrics = cm\<rparr>, w'))"

definition New :: "world \<Rightarrow> Metrics \<times> world" where
  "New w = NewMetrics defaultImpl_Register w"

subsection \<open>Register\<close>

text \<open>
  \<^verbatim>\<open>Register\<close> ranges over a Go map literal with four entries. \<open>collectors\<close> is the
  literal, in the order it is written. The order in which \<^verbatim>\<open>range\<close> visits a map is
  chosen by the Go runtime at each execution, so it is a parameter of \<open>Register\<close>:
  any list that holds each entry of the literal exactly once (\<open>range_order\<close>).
\<close>

definition collectors :: "Metrics \<Rightarrow> (string \<times> Collector) list" where
  "collectors m =
     [(metricNameComplianceScanError, CounterVecCollector (metricComplianceScanError (metrics m))),
      (metricNameComplianceScanStatus, CounterVecCollector (metricComplianceScanStatus (metrics m))),
      (metricNameComplianceRemediationStatus,
         CounterVecCollector (metricComplianceRemediationStatus (metrics m))),
      (metricNameComplianceStateGauge, GaugeVecCollector (metricComplianceStateGauge (metrics m)))]"

definition range_order :: "('k \<times> 'v) list \<Rightarrow> ('k \<times> 'v) list \<Rightarrow> bool" where
  "range_order entries order \<longleftrightarrow> distinct order \<and> set order = set entries"

fun register_loop :: "Metrics \<Rightarrow> (string \<times> Collector) list \<Rightarrow> world \<Rightarrow> error option \<times> world"
  where
  "register_loop m [] w = (None, w)"
| "register_loop m ((name, collector) # rest) w =
     (let w1 = log_Info (log m)
                 (Sprintf ''Attempting to register metric name: %s'' [ArgString name]) w;
          w2 = log_Info (log m)
                 (Sprintf ''Attempting to register metric collector: %s'' [ArgCollector collector]) w1;
          (err, l) = impl m collector (lib w2);
          w3 = w2\<lparr>lib := l\<rparr>
      in case err of
           Some e \<Rightarrow>
             (Some (Wrapf e (''register collector for '' @ name @ '' metric'')),
              log_Error (log m) e (Sprintf ''Failed to register metric: %s'' [ArgString name]) w3)
         | None \<Rightarrow>
             register_loop m rest
               (log_Info (log m)
                  (Sprintf ''Successfully registered metric: %s'' [ArgString name]) w3))"

definition Register :: "Metrics \<Rightarrow> (string \<times> Collector) list \<Rightarrow> world \<Rightarrow> error option \<times> world"
  where
  "Register m order w = register_loop m order w"

subsection \<open>Start\<close>

definition Start :: "Metrics \<Rightarrow> Context \<Rightarrow> env \<Rightarrow> world \<Rightarrow> error option outcome \<times> world" where
  "Start m ctx e w =
     (let w1 = log_Info (log m) (Literal ''Starting to serve controller metrics'') w
      in case http_Handle HandlerPath promhttp_Handler w1 of
           None \<Rightarrow> (Panicked, w1)
         | Some w2 \<Rightarrow>
             (let tlsConfig = \<lparr>MinVersion = VersionTLS12, NextProtos = [''http/1.1''],
                               CipherSuites = [], PreferServerCipherSuites = False\<rparr>;
                  tlsConfig' = SecureTLSConfig e tlsConfig;
                  server = \<lparr>Addr = MetricsAddrListen, TLSConfig = tlsConfig'\<rparr>;
                  crt = ''/var/run/secrets/serving-cert/tls.crt'';
                  key = ''/var/run/secrets/serving-cert/tls.key'';
                  w3 = w2\<lparr>trace := trace w2 @ [Call_ListenAndServeTLS server crt key]\<rparr>
              in case ListenAndServeTLS e server crt key of
                   Serves \<Rightarrow> (Blocked, w3)
                 | Stops err \<Rightarrow>
                     (case err of
                        Some er \<Rightarrow>
                          (Returned None, log_Error (log m) er (Literal ''Metrics service failed'') w3)
                      | None \<Rightarrow> (Returned None, w3))))"

subsection \<open>Recording observations\<close>

text \<open>
  Modelled from the spec: the type \<^verbatim>\<open>v1alpha1.ComplianceScanStatus\<close> is declared outside
  the files at hand. Of a scan status the Reporter reads the phase, the result and the
  error message; all are strings.
\<close>

record ComplianceScanStatus =
  Phase :: string
  Result :: string
  ErrorMessage :: string

text \<open>
  Modelled from the spec: the type \<^verbatim>\<open>v1alpha1.ComplianceRemediationStatus\<close> is declared
  outside the files at hand. Of a remediation status the Reporter reads the application
  state, a string.
\<close>

record ComplianceRemediationStatus =
  ApplicationState :: string

text \<open>Each operation returns the new world, or \<open>None\<close> when a library call panics.\<close>

definition IncComplianceScanStatus :: "Metrics \<Rightarrow> string \<Rightarrow> ComplianceScanStatus \<Rightarrow> world \<Rightarrow> world option"
  where
  "IncComplianceScanStatus m name status w =
     (case CounterVec_With (metricComplianceScanStatus (metrics m))
             [(metricLabelScanName, name),
              (metricLabelScanPhase, Phase status),
              (metricLabelScanResult, Result status)] w of
        None \<Rightarrow> None
      | Some (c, w1) \<Rightarrow>
          (let w2 = Counter_Inc c w1
           in if length (ErrorMessage status) > 0
              then (case CounterVec_With (metricComplianceScanError (metrics m))
                           [(metricLabelScanName, name)] w2 of
                      None \<Rightarrow> None
                    | Some (c', w3) \<Rightarrow> Some (Counter_Inc c' w3))
              else Some w2))"

definition IncComplianceRemediationStatus ::
  "Metrics \<Rightarrow> string \<Rightarrow> ComplianceRemediationStatus \<Rightarrow> world \<Rightarrow> world option"
  where
  "IncComplianceRemediationStatus m name status w =
     (case CounterVec_With (metricComplianceRemediationStatus (metrics m))
             [(metricLabelRemediationName, name),
              (metricLabelRemediationState, ApplicationState status)] w of
        None \<Rightarrow> None
      | Some (c, w1) \<Rightarrow> Some (Counter_Inc c w1))"

definition SetComplianceStateError :: "Metrics \<Rightarrow> string \<Rightarrow> world \<Rightarrow> world option" where
  "SetComplianceStateError m name w =
     (case GaugeVec_WithLabelValues (metricComplianceStateGauge (metrics m)) [name] w of
        None \<Rightarrow> None
      | Some (g, w1) \<Rightarrow> Some (Gauge_Set g METRIC_STATE_ERROR w1))"

definition SetComplianceStateInconsistent :: "Metrics \<Rightarrow> string \<Rightarrow> world \<Rightarrow> world option" where
  "SetComplianceStateInconsistent m name w =
     (case GaugeVec_WithLabelValues (metricComplianceStateGauge (metrics m)) [name] w of
        None \<Rightarrow> None
      | Some (g, w1) \<Rightarrow> Some (Gauge_Set g METRIC_STATE_INCONSISTENT w1))"

definition SetComplianceStateOutOfCompliance :: "Metrics \<Rightarrow> string \<Rightarrow> world \<Rightarrow> world option" where
  "SetComplianceStateOutOfCompliance m name w =
     (case GaugeVec_WithLabelValues (metricComplianceStateGauge (metrics m)) [name] w of
        None \<Rightarrow> None
      | Some (g, w1) \<Rightarrow> Some (Gauge_Set g METRIC_STATE_NON_COMPLIANT w1))"

definition SetComplianceStateInCompliance :: "Metrics \<Rightarrow> string \<Rightarrow> world \<Rightarrow> world option" where
  "SetComplianceStateInCompliance m name w =
     (case GaugeVec_WithLabelValues (metricComplianceStateGauge (metrics m)) [name] w of
        None \<Rightarrow> None
      | Some (g, w1) \<Rightarrow> Some (Gauge_Set g METRIC_STATE_COMPLIANT w1))"

subsection \<open>Sequences of calls\<close>

text \<open>
  A call of one of the six recording operations, and the effect of a sequence of such
  calls on one Reporter; a panic ends the sequence.
\<close>

datatype call =
    IncScan string ComplianceScanStatus
  | IncRemediation string ComplianceRemediationStatus
  | SetError string
  | SetInconsistent string
  | SetOutOfCompliance string
  | SetInCompliance string

fun do_call :: "Metrics \<Rightarrow> call \<Rightarrow> world \<Rightarrow> world option" where
  "do_call m (IncScan name status) w = IncComplianceScanStatus m name status w"
| "do_call m (IncRemediation name status) w = IncComplianceRemediationStatus m name status w"
| "do_call m (SetError name) w = SetComplianceStateError m name w"
| "do_call m (SetInconsistent name) w = SetComplianceStateInconsistent m name w"
| "do_call m (SetOutOfCompliance name) w = SetComplianceStateOutOfCompliance m name w"
| "do_call m (SetInCompliance name) w = SetComplianceStateInCompliance m name w"

fun do_calls :: "Metrics \<Rightarrow> call list \<Rightarrow> world \<Rightarrow> world option" where
  "do_calls m [] w = Some w"
| "do_calls m (c # cs) w = (case do_call m c w of None \<Rightarrow> None | Some w' \<Rightarrow> do_calls m cs w')"

subsection \<open>Concrete surroundings\<close>

text \<open>
  A process that has just started, a hardening function that switches on the server's
  cipher preference, a listener that keeps serving until somebody closes the server, and
  one that cannot read the certificate.
\<close>

definition world0 :: world where
  "world0 = \<lparr>lib = \<lparr>registry = [], stdlog = []\<rparr>, series = (\<lambda>_. []), next_addr = 0,
             mux = [], trace = []\<rparr>"

definition env_serving :: env where
  "env_serving =
     \<lparr>SecureTLSConfig = (\<lambda>c. c\<lparr>PreferServerCipherSuites := True\<rparr>),
      ListenAndServeTLS = (\<lambda>srv crt key. Serves)\<rparr>"

definition env_no_certificate :: env where
  "env_no_certificate =
     \<lparr>SecureTLSConfig = (\<lambda>c. c\<lparr>PreferServerCipherSuites := True\<rparr>),
      ListenAndServeTLS = (\<lambda>srv crt key.
         Stops (Some (ListenerFailure (''open '' @ crt @ '': no such file or directory''))))\<rparr>"

subsection \<open>Notions used in the statements\<close>

text \<open>
  What the listener does with the server that \<open>Start\<close> hands over: the server, the
  certificate file and the key file are written out as \<open>Start\<close> builds them.
\<close>

definition Start_listen :: "env \<Rightarrow> listen" where
  "Start_listen e =
     ListenAndServeTLS e
       \<lparr>Addr = '':8585'',
        TLSConfig = SecureTLSConfig e
          \<lparr>MinVersion = 0x0303, NextProtos = [''http/1.1''],
           CipherSuites = [], PreferServerCipherSuites = False\<rparr>\<rparr>
       ''/var/run/secrets/serving-cert/tls.crt'' ''/var/run/secrets/serving-cert/tls.key''"

text \<open>
  The world in which the listener has been handed the server: the handler is bound and
  the start of the service and the call are on the trace.
\<close>

definition listening :: "Metrics \<Rightarrow> env \<Rightarrow> world \<Rightarrow> world" where
  "listening m e w =
     w\<lparr>mux := mux w @ [(''/metrics-co'', promhttp_Handler)],
       trace := trace w @
         [LogInfo (log m) (Literal ''Starting to serve controller metrics''),
          Call_ListenAndServeTLS
            \<lparr>Addr = '':8585'',
             TLSConfig = SecureTLSConfig e
               \<lparr>MinVersion = 0x0303, NextProtos = [''http/1.1''],
                CipherSuites = [], PreferServerCipherSuites = False\<rparr>\<rparr>
            ''/var/run/secrets/serving-cert/tls.crt''
            ''/var/run/secrets/serving-cert/tls.key'']\<rparr>"

definition handler_bound :: "world \<Rightarrow> bool" where
  "handler_bound w \<longleftrightarrow> HandlerPath \<in> fst ` set (mux w)"

text \<open>
  A Reporter as the constructor builds it: the descriptors of its four instruments, which
  do not depend on the world, and four distinct addresses.
\<close>

definition constructed :: "Metrics \<Rightarrow> bool" where
  "constructed m \<longleftrightarrow>
     (let cm0 = fst (DefaultControllerMetrics world0);
          cm = metrics m
      in cv_desc (metricComplianceScanError cm) = cv_desc (metricComplianceScanError cm0) \<and>
         cv_desc (metricComplianceScanStatus cm) = cv_desc (metricComplianceScanStatus cm0) \<and>
         cv_desc (metricComplianceRemediationStatus cm) =
           cv_desc (metricComplianceRemediationStatus cm0) \<and>
         gv_desc (metricComplianceStateGauge cm) = gv_desc (metricComplianceStateGauge cm0) \<and>
         distinct [cv_addr (metricComplianceScanError cm), cv_addr (metricComplianceScanStatus cm),
                   cv_addr (metricComplianceRemediationStatus cm),
                   gv_addr (metricComplianceStateGauge cm)])"

text \<open>The addresses and label tuples under which the four instruments are read.\<close>

definition scan_status_reading :: "Metrics \<Rightarrow> world \<Rightarrow> string \<Rightarrow> string \<Rightarrow> string \<Rightarrow> nat" where
  "scan_status_reading m w name phase result =
     reading w (cv_addr (metricComplianceScanStatus (metrics m))) [name, phase, result]"

definition scan_error_reading :: "Metrics \<Rightarrow> world \<Rightarrow> string \<Rightarrow> nat" where
  "scan_error_reading m w name =
     reading w (cv_addr (metricComplianceScanError (metrics m))) [name]"

definition compliance_state_sample :: "Metrics \<Rightarrow> world \<Rightarrow> string \<Rightarrow> nat option" where
  "compliance_state_sample m w name =
     sample w (gv_addr (metricComplianceStateGauge (metrics m))) [name]"

text \<open>
  Whether a call is \<^verbatim>\<open>IncComplianceScanStatus\<close> for the tuple (name, phase, result), and
  how many calls of a sequence are.
\<close>

fun is_scan_call :: "string \<Rightarrow> string \<Rightarrow> string \<Rightarrow> call \<Rightarrow> bool" where
  "is_scan_call n p r (IncScan name status) \<longleftrightarrow> name = n \<and> Phase status = p \<and> Result status = r"
| "is_scan_call n p r (IncRemediation name status) \<longleftrightarrow> False"
| "is_scan_call n p r (SetError name) \<longleftrightarrow> False"
| "is_scan_call n p r (SetInconsistent name) \<longleftrightarrow> False"
| "is_scan_call n p r (SetOutOfCompliance name) \<longleftrightarrow> False"
| "is_scan_call n p r (SetInCompliance name) \<longleftrightarrow> False"

definition scan_calls :: "call list \<Rightarrow> string \<Rightarrow> string \<Rightarrow> string \<Rightarrow> nat" where
  "scan_calls cs n p r = length (filter (is_scan_call n p r) cs)"

text \<open>
  The ordinal that the spec associates with each setter (compliant 0, non-compliant 1,
  inconsistent 2, error 3) when the call is a setter for the suite \<open>n\<close>, and the
  ordinal of the last such call of a sequence.
\<close>

fun ordinal_of :: "call \<Rightarrow> string \<Rightarrow> nat option" where
  "ordinal_of (SetInCompliance name) n = (if name = n then Some 0 else None)"
| "ordinal_of (SetOutOfCompliance name) n = (if name = n then Some 1 else None)"
| "ordinal_of (SetInconsistent name) n = (if name = n then Some 2 else None)"
| "ordinal_of (SetError name) n = (if name = n then Some 3 else None)"
| "ordinal_of (IncScan name status) n = None"
| "ordinal_of (IncRemediation name status) n = None"

fun last_ordinal :: "call list \<Rightarrow> string \<Rightarrow> nat option" where
  "last_ordinal [] n = None"
| "last_ordinal (c # cs) n =
     (case last_ordinal cs n of Some v \<Rightarrow> Some v | None \<Rightarrow> ordinal_of c n)"

text \<open>The addresses of the three counter vectors of a Reporter.\<close>

definition counter_addrs :: "Metrics \<Rightarrow> addr list" where
  "counter_addrs m =
     [cv_addr (metricComplianceScanError (metrics m)),
      cv_addr (metricComplianceScanStatus (metrics m)),
      cv_addr (metricComplianceRemediationStatus (metrics m))]"

text \<open>A Reporter with the default adapter, constructed in a process that has just started.\<close>

definition reporter0 :: Metrics where
  "reporter0 = fst (New world0)"

definition started0 :: world where
  "started0 = snd (New world0)"

text \<open>Two sequences of recording calls.\<close>

definition scan_calls_example :: "call list" where
  "scan_calls_example =
     [IncScan ''scan-a'' \<lparr>Phase = ''RUNNING'', Result = ''NOT-AVAILABLE'', ErrorMessage = ''''\<rparr>,
      IncScan ''scan-b'' \<lparr>Phase = ''RUNNING'', Result = ''NOT-AVAILABLE'', ErrorMessage = ''''\<rparr>,
      SetError ''suite'',
      IncScan ''scan-a'' \<lparr>Phase = ''RUNNING'', Result = ''NOT-AVAILABLE'', ErrorMessage = ''x''\<rparr>,
      IncRemediation ''rem-a'' \<lparr>ApplicationState = ''Applied''\<rparr>]"

definition setter_calls_example :: "call list" where
  "setter_calls_example =
     [SetError ''suite-a'', SetInCompliance ''suite-b'', SetError ''suite-a'',
      SetInconsistent ''suite-a'', SetOutOfCompliance ''suite-a'']"

text \<open>
  What the spec says of \<open>Register\<close>, on the side of the adapter: the adapter is called on
  the collectors one after the other, each call starting from the library state left by
  the previous one; the run has a final state when every call succeeds.
\<close>

fun adapter_run :: "impl \<Rightarrow> Collector list \<Rightarrow> lib_state \<Rightarrow> lib_state option" where
  "adapter_run imp [] l = Some l"
| "adapter_run imp (c # cs) l =
     (case imp c l of (None, l') \<Rightarrow> adapter_run imp cs l' | (Some e, l') \<Rightarrow> None)"

text \<open>
  The identity of a collector (its fully-qualified name) and the identities of the four
  instruments of a Reporter, in the order of the literal.
\<close>

definition fq :: "Collector \<Rightarrow> string" where
  "fq c = fqName (collector_desc c)"

definition instrument_names :: "Metrics \<Rightarrow> string list" where
  "instrument_names m = map (\<lambda>(name, c). fq c) (collectors m)"

text \<open>
  A second Reporter constructed in the same process, and a world in which one of the four
  identities is already taken: the scan-status collector of the first Reporter has been
  registered on its own through the default adapter.
\<close>

definition reporter1 :: Metrics where
  "reporter1 = fst (New started0)"

definition started1 :: world where
  "started1 = snd (New started0)"

definition contested :: world where
  "contested =
     started1\<lparr>lib := snd (defaultImpl_Register
                          (CounterVecCollector (metricComplianceScanStatus (metrics reporter0)))
                          (lib started1))\<rparr>"

section \<open>Basic facts\<close>

subsection \<open>Instruments and recording operations\<close>

lemmas label_consts =
  metricLabelScanResult_def metricLabelScanName_def metricLabelSuiteName_def
  metricLabelScanPhase_def metricLabelRemediationName_def metricLabelRemediationState_def

lemma constructed_labels:
  assumes "constructed m"
  shows "variableLabels (cv_desc (metricComplianceScanStatus (metrics m))) = [''name'', ''phase'', ''result'']"
    and "variableLabels (cv_desc (metricComplianceScanError (metrics m))) = [''name'']"
    and "variableLabels (cv_desc (metricComplianceRemediationStatus (metrics m))) = [''name'', ''state'']"
    and "variableLabels (gv_desc (metricComplianceStateGauge (metrics m))) = [''name'']"
  using assms
  by (simp_all add: constructed_def Let_def DefaultControllerMetrics_def NewCounterVec_def
      NewGaugeVec_def alloc_vec_def split_def label_consts)

lemma constructed_addrs:
  assumes "constructed m"
  shows "distinct [cv_addr (metricComplianceScanError (metrics m)),
                   cv_addr (metricComplianceScanStatus (metrics m)),
                   cv_addr (metricComplianceRemediationStatus (metrics m)),
                   gv_addr (metricComplianceStateGauge (metrics m))]"
  using assms unfolding constructed_def Let_def by blast

lemma sample_get_or_create:
  "sample (get_or_create a lvs w) a' lvs' =
     (if a' = a \<and> lvs' = lvs \<and> sample w a lvs = None then Some 0 else sample w a' lvs')"
  by (auto simp: sample_def get_or_create_def map_add_def split: option.splits)

lemma sample_Counter_Inc:
  "sample (Counter_Inc (Counter a lvs) w) a' lvs' =
     (if a' = a \<and> lvs' = lvs then map_option Suc (sample w a lvs) else sample w a' lvs')"
  by (auto simp: sample_def AList.map_of_map_entry split: option.splits)

lemma sample_Gauge_Set:
  "sample (Gauge_Set (Gauge a lvs) v w) a' lvs' =
     (if a' = a \<and> lvs' = lvs then map_option (\<lambda>_. v) (sample w a lvs) else sample w a' lvs')"
  by (auto simp: sample_def AList.map_of_map_entry split: option.splits)

lemma Counter_Inc_frame [simp]:
  "lib (Counter_Inc c w) = lib w" "mux (Counter_Inc c w) = mux w"
  "trace (Counter_Inc c w) = trace w" "next_addr (Counter_Inc c w) = next_addr w"
  by (cases c; simp)+

lemma Gauge_Set_frame [simp]:
  "lib (Gauge_Set g v w) = lib w" "mux (Gauge_Set g v w) = mux w"
  "trace (Gauge_Set g v w) = trace w" "next_addr (Gauge_Set g v w) = next_addr w"
  by (cases g; simp)+

lemma get_or_create_frame [simp]:
  "lib (get_or_create a lvs w) = lib w" "mux (get_or_create a lvs w) = mux w"
  "trace (get_or_create a lvs w) = trace w" "next_addr (get_or_create a lvs w) = next_addr w"
  by (simp_all add: get_or_create_def split: option.splits)

declare Counter_Inc.simps [simp del] Gauge_Set.simps [simp del]

lemma reading_eq: "reading w a lvs = (case sample w a lvs of None \<Rightarrow> 0 | Some v \<Rightarrow> v)"
  by (simp add: reading_def)

lemma sample_observe:
  "sample (Counter_Inc (Counter a lvs) (get_or_create a lvs w)) a' lvs' =
     (if a' = a \<and> lvs' = lvs then Some (Suc (reading w a lvs)) else sample w a' lvs')"
  by (auto simp: sample_Counter_Inc sample_get_or_create reading_def split: option.splits)

lemma sample_put:
  "sample (Gauge_Set (Gauge a lvs) v (get_or_create a lvs w)) a' lvs' =
     (if a' = a \<and> lvs' = lvs then Some v else sample w a' lvs')"
  by (auto simp: sample_Gauge_Set sample_get_or_create split: option.splits)

lemma label_values_3:
  "n1 \<noteq> n2 \<Longrightarrow> n1 \<noteq> n3 \<Longrightarrow> n2 \<noteq> n3 \<Longrightarrow>
   label_values [n1, n2, n3] [(n1, a), (n2, b), (n3, c)] = Some [a, b, c]"
  by (simp add: label_values_def)

lemma label_values_2:
  "n1 \<noteq> n2 \<Longrightarrow> label_values [n1, n2] [(n1, a), (n2, b)] = Some [a, b]"
  by (simp add: label_values_def)

lemma label_values_1: "label_values [n1] [(n1, a)] = Some [a]"
  by (simp add: label_values_def)

lemma IncComplianceScanStatus_constructed:
  assumes "constructed m"
  shows "IncComplianceScanStatus m name status w =
     (let w2 = Counter_Inc (Counter (cv_addr (metricComplianceScanStatus (metrics m)))
                               [name, Phase status, Result status])
                 (get_or_create (cv_addr (metricComplianceScanStatus (metrics m)))
                               [name, Phase status, Result status] w)
      in if ErrorMessage status \<noteq> []
         then Some (Counter_Inc (Counter (cv_addr (metricComplianceScanError (metrics m))) [name])
                 (get_or_create (cv_addr (metricComplianceScanError (metrics m))) [name] w2))
         else Some w2)"
  by (simp add: IncComplianceScanStatus_def CounterVec_With_def constructed_labels [OF assms]
      label_consts label_values_3 label_values_1 Let_def)

lemma IncComplianceRemediationStatus_constructed:
  assumes "constructed m"
  shows "IncComplianceRemediationStatus m name status w =
     Some (Counter_Inc (Counter (cv_addr (metricComplianceRemediationStatus (metrics m)))
                               [name, ApplicationState status])
                 (get_or_create (cv_addr (metricComplianceRemediationStatus (metrics m)))
                               [name, ApplicationState status] w))"
  by (simp add: IncComplianceRemediationStatus_def CounterVec_With_def constructed_labels [OF assms]
      label_consts label_values_2 Let_def)

lemma Set_constructed:
  assumes "constructed m"
  shows "SetComplianceStateError m name w =
           Some (Gauge_Set (Gauge (gv_addr (metricComplianceStateGauge (metrics m))) [name]) 3
                  (get_or_create (gv_addr (metricComplianceStateGauge (metrics m))) [name] w))"
    and "SetComplianceStateInconsistent m name w =
           Some (Gauge_Set (Gauge (gv_addr (metricComplianceStateGauge (metrics m))) [name]) 2
                  (get_or_create (gv_addr (metricComplianceStateGauge (metrics m))) [name] w))"
    and "SetComplianceStateOutOfCompliance m name w =
           Some (Gauge_Set (Gauge (gv_addr (metricComplianceStateGauge (metrics m))) [name]) 1
                  (get_or_create (gv_addr (metricComplianceStateGauge (metrics m))) [name] w))"
    and "SetComplianceStateInCompliance m name w =
           Some (Gauge_Set (Gauge (gv_addr (metricComplianceStateGauge (metrics m))) [name]) 0
                  (get_or_create (gv_addr (metricComplianceStateGauge (metrics m))) [name] w))"
  by (simp_all add: SetComplianceStateError_def SetComplianceStateInconsistent_def
      SetComplianceStateOutOfCompliance_def SetComplianceStateInCompliance_def
      GaugeVec_WithLabelValues_def constructed_labels [OF assms]
      METRIC_STATE_COMPLIANT_def METRIC_STATE_NON_COMPLIANT_def
      METRIC_STATE_INCONSISTENT_def METRIC_STATE_ERROR_def)

lemma reading_observe:
  "reading (Counter_Inc (Counter a lvs) (get_or_create a lvs w)) a' lvs' =
     (if a' = a \<and> lvs' = lvs then Suc (reading w a lvs) else reading w a' lvs')"
  by (simp add: reading_def sample_observe)

lemma reading_put_other:
  "a' \<noteq> a \<Longrightarrow> reading (Gauge_Set (Gauge a lvs) v (get_or_create a lvs w)) a' lvs' = reading w a' lvs'"
  by (simp add: reading_def sample_put)

lemma constructed_neq:
  assumes "constructed m"
  shows "cv_addr (metricComplianceScanError (metrics m)) \<noteq> cv_addr (metricComplianceScanStatus (metrics m))"
    and "cv_addr (metricComplianceScanStatus (metrics m)) \<noteq> cv_addr (metricComplianceScanError (metrics m))"
    and "cv_addr (metricComplianceScanError (metrics m)) \<noteq> cv_addr (metricComplianceRemediationStatus (metrics m))"
    and "cv_addr (metricComplianceRemediationStatus (metrics m)) \<noteq> cv_addr (metricComplianceScanError (metrics m))"
    and "cv_addr (metricComplianceScanStatus (metrics m)) \<noteq> cv_addr (metricComplianceRemediationStatus (metrics m))"
    and "cv_addr (metricComplianceRemediationStatus (metrics m)) \<noteq> cv_addr (metricComplianceScanStatus (metrics m))"
    and "gv_addr (metricComplianceStateGauge (metrics m)) \<noteq> cv_addr (metricComplianceScanError (metrics m))"
    and "gv_addr (metricComplianceStateGauge (metrics m)) \<noteq> cv_addr (metricComplianceScanStatus (metrics m))"
    and "gv_addr (metricComplianceStateGauge (metrics m)) \<noteq> cv_addr (metricComplianceRemediationStatus (metrics m))"
    and "cv_addr (metricComplianceScanError (metrics m)) \<noteq> gv_addr (metricComplianceStateGauge (metrics m))"
    and "cv_addr (metricComplianceScanStatus (metrics m)) \<noteq> gv_addr (metricComplianceStateGauge (metrics m))"
    and "cv_addr (metricComplianceRemediationStatus (metrics m)) \<noteq> gv_addr (metricComplianceStateGauge (metrics m))"
  using constructed_addrs [OF assms] by auto

lemmas op_constructed =
  IncComplianceScanStatus_constructed IncComplianceRemediationStatus_constructed Set_constructed

lemma do_call_total:
  assumes "constructed m"
  shows "\<exists>w'. do_call m c w = Some w'"
  by (cases c) (simp_all add: op_constructed [OF assms] Let_def)

lemma do_call_scan_status:
  assumes "constructed m" and "do_call m c w = Some w'"
  shows "scan_status_reading m w' n p r =
           scan_status_reading m w n p r + (if is_scan_call n p r c then 1 else 0)"
  using assms(2)
  by (cases c)
     (auto simp: op_constructed [OF assms(1)] Let_def scan_status_reading_def reading_observe
        reading_put_other constructed_neq [OF assms(1)] split: if_splits)

lemma do_call_counter_mono:
  assumes "constructed m" and "do_call m c w = Some w'" and "a \<in> set (counter_addrs m)"
  shows "reading w a lvs \<le> reading w' a lvs \<and> (sample w a lvs \<noteq> None \<longrightarrow> sample w' a lvs \<noteq> None)"
  using assms(2,3)
  by (cases c)
     (auto simp: op_constructed [OF assms(1)] Let_def counter_addrs_def reading_observe
        reading_put_other sample_observe sample_put constructed_neq [OF assms(1)] split: if_splits)

lemma do_call_gauge:
  assumes "constructed m" and "do_call m c w = Some w'"
  shows "compliance_state_sample m w' n =
           (case ordinal_of c n of Some v \<Rightarrow> Some v | None \<Rightarrow> compliance_state_sample m w n)"
  using assms(2)
  by (cases c)
     (auto simp: op_constructed [OF assms(1)] Let_def compliance_state_sample_def
        sample_observe sample_put constructed_neq [OF assms(1)] split: if_splits)

lemma do_calls_total:
  assumes "constructed m"
  shows "\<exists>w'. do_calls m cs w = Some w'"
proof (induction cs arbitrary: w)
  case Nil
  show ?case by simp
next
  case (Cons c cs)
  from do_call_total [OF assms] obtain w1 where "do_call m c w = Some w1" by blast
  with Cons.IH [of w1] show ?case by simp
qed

lemma do_calls_scan_status:
  assumes "constructed m"
  shows "do_calls m cs w = Some w' \<Longrightarrow>
     scan_status_reading m w' n p r = scan_status_reading m w n p r + scan_calls cs n p r"
proof (induction cs arbitrary: w)
  case Nil
  then show ?case by (simp add: scan_calls_def)
next
  case (Cons c cs)
  from Cons.prems obtain w1 where 1: "do_call m c w = Some w1" and 2: "do_calls m cs w1 = Some w'"
    by (auto split: option.splits)
  from Cons.IH [OF 2] do_call_scan_status [OF assms 1, of n p r]
  show ?case by (simp add: scan_calls_def)
qed

lemma do_calls_counter_mono:
  assumes "constructed m" and "a \<in> set (counter_addrs m)"
  shows "do_calls m cs w = Some w' \<Longrightarrow>
     reading w a lvs \<le> reading w' a lvs \<and> (sample w a lvs \<noteq> None \<longrightarrow> sample w' a lvs \<noteq> None)"
proof (induction cs arbitrary: w)
  case Nil
  then show ?case by simp
next
  case (Cons c cs)
  from Cons.prems obtain w1 where 1: "do_call m c w = Some w1" and 2: "do_calls m cs w1 = Some w'"
    by (auto split: option.splits)
  from Cons.IH [OF 2] do_call_counter_mono [OF assms(1) 1 assms(2), of lvs]
  show ?case by auto
qed

lemma do_calls_gauge:
  assumes "constructed m"
  shows "do_calls m cs w = Some w' \<Longrightarrow>
     compliance_state_sample m w' n =
       (case last_ordinal cs n of Some v \<Rightarrow> Some v | None \<Rightarrow> compliance_state_sample m w n)"
proof (induction cs arbitrary: w)
  case Nil
  then show ?case by simp
next
  case (Cons c cs)
  from Cons.prems obtain w1 where 1: "do_call m c w = Some w1" and 2: "do_calls m cs w1 = Some w'"
    by (auto split: option.splits)
  from Cons.IH [OF 2] do_call_gauge [OF assms 1, of n]
  show ?case by (simp split: option.splits)
qed

lemma ordinal_of_range: "ordinal_of c n = Some v \<Longrightarrow> v \<in> {0, 1, 2, 3}"
  by (cases c) (auto split: if_splits)

lemma last_ordinal_range: "last_ordinal cs n = Some v \<Longrightarrow> v \<in> {0, 1, 2, 3}"
proof (induction cs)
  case Nil
  then show ?case by simp
next
  case (Cons c cs)
  then show ?case
    by (cases "last_ordinal cs n") (auto dest: ordinal_of_range)
qed

lemma last_ordinal_last:
  "cs \<noteq> [] \<Longrightarrow> ordinal_of (last cs) n = Some v \<Longrightarrow> last_ordinal cs n = Some v"
proof (induction cs)
  case Nil
  then show ?case by simp
next
  case (Cons c cs)
  show ?case
  proof (cases "cs = []")
    case True
    with Cons.prems show ?thesis by simp
  next
    case False
    with Cons.prems have "ordinal_of (last cs) n = Some v" by simp
    with Cons.IH False have "last_ordinal cs n = Some v" by simp
    then show ?thesis by simp
  qed
qed

lemma map_entry_const_idem:
  "AList.map_entry k (\<lambda>_. v) (AList.map_entry k (\<lambda>_. v) xs) = AList.map_entry k (\<lambda>_. v) xs"
  by (induction xs) auto

lemma map_of_map_entry_const:
  "map_of xs k = Some u \<Longrightarrow> map_of (AList.map_entry k (\<lambda>_. v) xs) k = Some v"
  by (simp add: AList.map_of_map_entry)

lemma put_idem:
  "Gauge_Set (Gauge a lvs) v (get_or_create a lvs (Gauge_Set (Gauge a lvs) v (get_or_create a lvs w))) =
   Gauge_Set (Gauge a lvs) v (get_or_create a lvs w)"
proof -
  let ?w1 = "Gauge_Set (Gauge a lvs) v (get_or_create a lvs w)"
  have "sample ?w1 a lvs = Some v" by (simp add: sample_put)
  then have "get_or_create a lvs ?w1 = ?w1"
    by (simp add: get_or_create_def sample_def)
  then show ?thesis
    by (simp add: Gauge_Set.simps map_entry_const_idem)
qed

lemma setter_idem:
  assumes "constructed m" and "ordinal_of c n = Some v" and "do_call m c w = Some w'"
  shows "do_call m c w' = Some w'"
  using assms(2,3)
  by (cases c) (auto simp: Set_constructed [OF assms(1)] put_idem)

subsection \<open>Construction\<close>

lemma log_simps [simp]:
  "mux (log_Info lg msg w) = mux w"
  "lib (log_Info lg msg w) = lib w"
  "series (log_Info lg msg w) = series w"
  "next_addr (log_Info lg msg w) = next_addr w"
  "trace (log_Info lg msg w) = trace w @ [LogInfo lg msg]"
  "mux (log_Error lg er msg w) = mux w"
  "lib (log_Error lg er msg w) = lib w"
  "series (log_Error lg er msg w) = series w"
  "next_addr (log_Error lg er msg w) = next_addr w"
  "trace (log_Error lg er msg w) = trace w @ [LogError lg er msg]"
  by (simp_all add: log_Info_def log_Error_def)

lemmas construct_defs =
  DefaultControllerMetrics_def NewCounterVec_def NewGaugeVec_def alloc_vec_def split_def Let_def

lemma DefaultControllerMetrics_addrs:
  "cv_addr (metricComplianceScanError (fst (DefaultControllerMetrics w))) = next_addr w"
  "cv_addr (metricComplianceScanStatus (fst (DefaultControllerMetrics w))) = Suc (next_addr w)"
  "cv_addr (metricComplianceRemediationStatus (fst (DefaultControllerMetrics w))) =
     Suc (Suc (next_addr w))"
  "gv_addr (metricComplianceStateGauge (fst (DefaultControllerMetrics w))) =
     Suc (Suc (Suc (next_addr w)))"
  by (simp_all add: construct_defs)

lemma DefaultControllerMetrics_descs:
  "cv_desc (metricComplianceScanError (fst (DefaultControllerMetrics w))) =
     cv_desc (metricComplianceScanError (fst (DefaultControllerMetrics w')))"
  "cv_desc (metricComplianceScanStatus (fst (DefaultControllerMetrics w))) =
     cv_desc (metricComplianceScanStatus (fst (DefaultControllerMetrics w')))"
  "cv_desc (metricComplianceRemediationStatus (fst (DefaultControllerMetrics w))) =
     cv_desc (metricComplianceRemediationStatus (fst (DefaultControllerMetrics w')))"
  "gv_desc (metricComplianceStateGauge (fst (DefaultControllerMetrics w))) =
     gv_desc (metricComplianceStateGauge (fst (DefaultControllerMetrics w')))"
  by (simp_all add: construct_defs)

lemma DefaultControllerMetrics_snd:
  "series (snd (DefaultControllerMetrics w)) =
     (series w)(next_addr w := [], Suc (next_addr w) := [], Suc (Suc (next_addr w)) := [],
                Suc (Suc (Suc (next_addr w))) := [])"
  "lib (snd (DefaultControllerMetrics w)) = lib w"
  "mux (snd (DefaultControllerMetrics w)) = mux w"
  "next_addr (snd (DefaultControllerMetrics w)) = Suc (Suc (Suc (Suc (next_addr w))))"
  by (simp_all add: construct_defs)

lemma NewMetrics_simps [simp]:
  "metrics (fst (NewMetrics imp w)) = fst (DefaultControllerMetrics w)"
  "impl (fst (NewMetrics imp w)) = imp"
  "log (fst (NewMetrics imp w)) = ''metrics''"
  "snd (NewMetrics imp w) = snd (DefaultControllerMetrics w)"
  by (simp_all add: NewMetrics_def split_def Let_def)

lemma NewMetrics_constructed: "constructed (fst (NewMetrics imp w))"
  unfolding constructed_def Let_def NewMetrics_simps
  using DefaultControllerMetrics_descs [of w world0]
  by (simp add: DefaultControllerMetrics_addrs)

lemma NewMetrics_fresh:
  assumes "(m, w) = NewMetrics imp w0"
    and "a \<in> set (counter_addrs m) \<or> a = gv_addr (metricComplianceStateGauge (metrics m))"
  shows "sample w a lvs = None"
proof -
  from assms(1) have m: "m = fst (NewMetrics imp w0)" and w: "w = snd (NewMetrics imp w0)"
    by (metis fst_conv, metis snd_conv)
  from assms(2) show ?thesis
    unfolding m w
    by (auto simp: counter_addrs_def DefaultControllerMetrics_addrs DefaultControllerMetrics_snd
        sample_def)
qed

lemma reporter0_constructed: "constructed reporter0"
  by (simp add: reporter0_def New_def NewMetrics_constructed)

lemma reporter0_started0: "(reporter0, started0) = NewMetrics defaultImpl_Register world0"
  by (simp add: reporter0_def started0_def New_def prod_eq_iff)

subsection \<open>Start\<close>

lemma handler_bound_log_Info [simp]: "handler_bound (log_Info lg msg w) = handler_bound w"
  by (simp add: handler_bound_def)

lemma http_Handle_bound: "handler_bound w \<Longrightarrow> http_Handle HandlerPath h w = None"
  by (simp add: handler_bound_def http_Handle_def)

lemma http_Handle_free:
  "\<not> handler_bound w \<Longrightarrow>
   http_Handle HandlerPath h w = Some (w\<lparr>mux := mux w @ [(HandlerPath, h)]\<rparr>)"
  by (simp add: handler_bound_def http_Handle_def)

lemma Start_bound:
  "handler_bound w \<Longrightarrow>
   Start m ctx e w =
     (Panicked, log_Info (log m) (Literal ''Starting to serve controller metrics'') w)"
  by (simp add: Start_def Let_def http_Handle_bound)

lemma Start_free:
  assumes free: "\<not> handler_bound w"
  shows "Start m ctx e w =
     (case Start_listen e of
        Serves \<Rightarrow> (Blocked, listening m e w)
      | Stops None \<Rightarrow> (Returned None, listening m e w)
      | Stops (Some er) \<Rightarrow>
          (Returned None, log_Error (log m) er (Literal ''Metrics service failed'') (listening m e w)))"
proof -
  let ?w1 = "log_Info (log m) (Literal ''Starting to serve controller metrics'') w"
  have h: "http_Handle HandlerPath promhttp_Handler ?w1 =
      Some (?w1\<lparr>mux := mux ?w1 @ [(HandlerPath, promhttp_Handler)]\<rparr>)"
    using free by (simp add: http_Handle_free)
  show ?thesis
    unfolding Start_def Let_def h
    by (simp add: Start_listen_def listening_def log_Info_def log_Error_def HandlerPath_def
        MetricsAddrListen_def VersionTLS12_def split: listen.splits option.splits)
qed

lemma listening_simps [simp]:
  "mux (listening m e w) = mux w @ [(''/metrics-co'', promhttp_Handler)]"
  "lib (listening m e w) = lib w"
  "series (listening m e w) = series w"
  "next_addr (listening m e w) = next_addr w"
  by (simp_all add: listening_def)

lemma Start_binds_handler: "handler_bound (snd (Start m ctx e w))"
proof (cases "handler_bound w")
  case True
  then show ?thesis by (simp add: Start_bound)
next
  case False
  then show ?thesis
    by (simp add: Start_free handler_bound_def HandlerPath_def split: listen.splits option.splits)
qed

lemma Start_series: "series (snd (Start m ctx e w)) = series w"
proof (cases "handler_bound w")
  case True
  then show ?thesis by (simp add: Start_bound)
next
  case False
  then show ?thesis
    by (simp add: Start_free split: listen.splits option.splits)
qed

lemma world0_free: "\<not> handler_bound world0"
  by (simp add: handler_bound_def world0_def)

lemma started0_free: "\<not> handler_bound started0"
  by (simp add: handler_bound_def started0_def New_def DefaultControllerMetrics_snd world0_def)


subsection \<open>Register, for any adapter\<close>

lemma register_loop_series: "series (snd (register_loop m xs w)) = series w"
proof (induction xs arbitrary: w)
  case Nil
  show ?case by simp
next
  case (Cons x xs)
  obtain name collector where x: "x = (name, collector)" by (cases x)
  show ?case
    by (simp add: x Let_def split_def Cons.IH split: option.splits)
qed

lemma Register_series: "series (snd (Register m order w)) = series w"
  by (simp add: Register_def register_loop_series)

lemma started0_fresh:
  "a \<in> set (counter_addrs reporter0) \<or> a = gv_addr (metricComplianceStateGauge (metrics reporter0)) \<Longrightarrow>
   sample started0 a lvs = None"
  by (rule NewMetrics_fresh [OF reporter0_started0])

lemma started0_readings:
  "scan_status_reading reporter0 started0 n p r = 0"
  "scan_error_reading reporter0 started0 n = 0"
  "compliance_state_sample reporter0 started0 n = None"
  by (simp_all add: scan_status_reading_def scan_error_reading_def compliance_state_sample_def
      reading_def started0_fresh counter_addrs_def)

lemma adapter_run_append:
  "adapter_run imp (xs @ ys) l =
     (case adapter_run imp xs l of None \<Rightarrow> None | Some l' \<Rightarrow> adapter_run imp ys l')"
  by (induction xs arbitrary: l) (auto split: prod.splits option.splits)

lemma register_loop_ok:
  "adapter_run (impl m) (map snd xs) (lib w) = Some l \<Longrightarrow>
   fst (register_loop m xs w) = None \<and> lib (snd (register_loop m xs w)) = l"
proof (induction xs arbitrary: w)
  case Nil
  then show ?case by simp
next
  case (Cons x xs)
  obtain name c where x: "x = (name, c)" by (cases x)
  obtain r l1 where i: "impl m c (lib w) = (r, l1)" by (cases "impl m c (lib w)")
  from Cons.prems x i have r: "r = None" and rest: "adapter_run (impl m) (map snd xs) l1 = Some l"
    by (auto split: option.splits)
  let ?w' = "log_Info (log m) (Sprintf ''Successfully registered metric: %s'' [ArgString name])
      ((log_Info (log m) (Sprintf ''Attempting to register metric collector: %s'' [ArgCollector c])
         (log_Info (log m) (Sprintf ''Attempting to register metric name: %s'' [ArgString name]) w))
       \<lparr>lib := l1\<rparr>)"
  have "lib ?w' = l1" by simp
  with rest have "adapter_run (impl m) (map snd xs) (lib ?w') = Some l" by simp
  from Cons.IH [OF this] show ?case
    by (simp add: x i r Let_def)
qed

lemma register_loop_fails:
  "fst (register_loop m xs w) = Some er \<Longrightarrow>
   \<exists>pre name c post e l1.
     xs = pre @ (name, c) # post \<and>
     adapter_run (impl m) (map snd pre) (lib w) = Some l1 \<and>
     impl m c l1 = (Some e, lib (snd (register_loop m xs w))) \<and>
     er = Wrapf e (''register collector for '' @ name @ '' metric'') \<and>
     last (trace (snd (register_loop m xs w))) =
       LogError (log m) e (Sprintf ''Failed to register metric: %s'' [ArgString name])"
proof (induction xs arbitrary: w)
  case Nil
  then show ?case by simp
next
  case (Cons x xs)
  obtain name c where x: "x = (name, c)" by (cases x)
  obtain r l1 where i: "impl m c (lib w) = (r, l1)" by (cases "impl m c (lib w)")
  show ?case
  proof (cases r)
    case (Some e)
    have "(name, c) # xs = [] @ (name, c) # xs \<and>
       adapter_run (impl m) (map snd []) (lib w) = Some (lib w) \<and>
       impl m c (lib w) = (Some e, lib (snd (register_loop m ((name, c) # xs) w))) \<and>
       er = Wrapf e (''register collector for '' @ name @ '' metric'') \<and>
       last (trace (snd (register_loop m ((name, c) # xs) w))) =
         LogError (log m) e (Sprintf ''Failed to register metric: %s'' [ArgString name])"
      using Cons.prems by (simp add: x i Some Let_def)
    then show ?thesis unfolding x by blast
  next
    case None
    let ?w' = "log_Info (log m) (Sprintf ''Successfully registered metric: %s'' [ArgString name])
      ((log_Info (log m) (Sprintf ''Attempting to register metric collector: %s'' [ArgCollector c])
         (log_Info (log m) (Sprintf ''Attempting to register metric name: %s'' [ArgString name]) w))
       \<lparr>lib := l1\<rparr>)"
    have step: "register_loop m (x # xs) w = register_loop m xs ?w'"
      by (simp add: x i None Let_def)
    have lw: "lib ?w' = l1" by simp
    from Cons.prems step have "fst (register_loop m xs ?w') = Some er" by simp
    from Cons.IH [OF this] obtain pre name' c' post e l2 where
      xs: "xs = pre @ (name', c') # post"
      and run: "adapter_run (impl m) (map snd pre) (lib ?w') = Some l2"
      and fail: "impl m c' l2 = (Some e, lib (snd (register_loop m xs ?w')))"
      and er: "er = Wrapf e (''register collector for '' @ name' @ '' metric'')"
      and tr: "last (trace (snd (register_loop m xs ?w'))) =
          LogError (log m) e (Sprintf ''Failed to register metric: %s'' [ArgString name'])"
      by blast
    have "x # xs = (x # pre) @ (name', c') # post" by (simp add: xs)
    moreover have "adapter_run (impl m) (map snd (x # pre)) (lib w) = Some l2"
      using run by (simp add: x i None lw)
    ultimately show ?thesis
      using fail er tr unfolding step by blast
  qed
qed


subsection \<open>The default adapter and the registry\<close>

lemma defaultImpl_Register_fst:
  "fst (defaultImpl_Register c l) =
     (if fq c \<in> set (registered_names l) then Some (DuplicateRegistration (fq c)) else None)"
  by (simp add: defaultImpl_Register_def prometheus_Register_def log_Printf_def registered_names_def
      fq_def Let_def)

lemma defaultImpl_Register_registry:
  "registry (snd (defaultImpl_Register c l)) =
     (if fq c \<in> set (registered_names l) then registry l else registry l @ [c])"
  by (simp add: defaultImpl_Register_def prometheus_Register_def log_Printf_def registered_names_def
      fq_def Let_def)

lemma registered_names_append:
  "registry l' = registry l @ cs \<Longrightarrow> registered_names l' = registered_names l @ map fq cs"
  by (simp add: registered_names_def fq_def)

lemma adapter_run_default_registry:
  "adapter_run defaultImpl_Register cs l = Some l' \<Longrightarrow> registry l' = registry l @ cs"
proof (induction cs arbitrary: l)
  case Nil
  then show ?case by simp
next
  case (Cons c cs)
  obtain r l1 where i: "defaultImpl_Register c l = (r, l1)" by (cases "defaultImpl_Register c l")
  from Cons.prems i have r: "r = None" and rest: "adapter_run defaultImpl_Register cs l1 = Some l'"
    by (auto split: option.splits)
  from i r defaultImpl_Register_fst [of c l] have fresh: "fq c \<notin> set (registered_names l)"
    by (auto split: if_splits)
  with i defaultImpl_Register_registry [of c l] have "registry l1 = registry l @ [c]" by simp
  with Cons.IH [OF rest] show ?case by simp
qed

lemma adapter_run_default_ok:
  "distinct (map fq cs) \<Longrightarrow> set (map fq cs) \<inter> set (registered_names l) = {} \<Longrightarrow>
   adapter_run defaultImpl_Register cs l \<noteq> None"
proof (induction cs arbitrary: l)
  case Nil
  then show ?case by simp
next
  case (Cons c cs)
  obtain r l1 where i: "defaultImpl_Register c l = (r, l1)" by (cases "defaultImpl_Register c l")
  from Cons.prems have fresh: "fq c \<notin> set (registered_names l)" by auto
  with i defaultImpl_Register_fst [of c l] have r: "r = None" by simp
  from fresh i defaultImpl_Register_registry [of c l] have reg: "registry l1 = registry l @ [c]"
    by simp
  have "registered_names l1 = registered_names l @ [fq c]"
    using registered_names_append [OF reg] by simp
  with Cons.prems have "set (map fq cs) \<inter> set (registered_names l1) = {}" by auto
  moreover from Cons.prems have "distinct (map fq cs)" by simp
  ultimately have "adapter_run defaultImpl_Register cs l1 \<noteq> None" by (rule Cons.IH [rotated])
  then show ?case by (simp add: i r)
qed

lemmas metric_consts =
  metricNamespace_def metricNameComplianceScanStatus_def metricNameComplianceScanError_def
  metricNameComplianceRemediationStatus_def metricNameComplianceStateGauge_def

lemma constructed_instrument_names:
  assumes "constructed m"
  shows "instrument_names m =
     [''compliance_operator_compliance_scan_error_total'',
      ''compliance_operator_compliance_scan_status_total'',
      ''compliance_operator_compliance_remediation_status_total'',
      ''compliance_operator_compliance_state'']"
  using assms
  by (simp add: instrument_names_def collectors_def fq_def constructed_def Let_def construct_defs
      BuildFQName_def metric_consts)

lemma collectors_names:
  "map fst (collectors m) =
     [''compliance_scan_error_total'', ''compliance_scan_status_total'',
      ''compliance_remediation_status_total'', ''compliance_state'']"
  by (simp add: collectors_def metric_consts)

lemma distinct_collectors: "distinct (collectors m)"
proof -
  have "distinct (map fst (collectors m))" by (simp add: collectors_names)
  then show ?thesis by (rule distinct_map [THEN iffD1, THEN conjunct1])
qed

lemma range_order_length:
  assumes "range_order (collectors m) order"
  shows "length order = 4"
proof -
  from assms have d: "distinct order" and s: "set order = set (collectors m)"
    by (simp_all add: range_order_def)
  have "length order = card (set order)" using d by (simp add: distinct_card)
  also have "\<dots> = card (set (collectors m))" by (simp add: s)
  also have "\<dots> = length (collectors m)" using distinct_collectors by (simp add: distinct_card)
  also have "\<dots> = 4" by (simp add: collectors_def)
  finally show ?thesis .
qed

lemma range_order_distinct_fq:
  assumes c: "constructed m" and ro: "range_order (collectors m) order"
  shows "distinct (map fq (map snd order))" and "set (map fq (map snd order)) = set (instrument_names m)"
proof -
  have dn: "distinct (instrument_names m)"
    by (simp add: constructed_instrument_names [OF c])
  have eq: "instrument_names m = map (fq \<circ> snd) (collectors m)"
    by (simp add: instrument_names_def split_def comp_def)
  from dn eq have inj: "inj_on (fq \<circ> snd) (set (collectors m))"
    by (simp add: distinct_map)
  from ro have d: "distinct order" and s: "set order = set (collectors m)"
    by (simp_all add: range_order_def)
  from d inj s have "distinct (map (fq \<circ> snd) order)"
    by (simp add: distinct_map)
  then show "distinct (map fq (map snd order))" by simp
  show "set (map fq (map snd order)) = set (instrument_names m)"
    by (simp add: eq s image_comp)
qed

lemma register_loop_append_ok:
  "adapter_run (impl m) (map snd pre) (lib w) = Some l1 \<Longrightarrow>
   \<exists>w'. lib w' = l1 \<and> register_loop m (pre @ rest) w = register_loop m rest w'"
proof (induction pre arbitrary: w)
  case Nil
  then have "lib w = l1 \<and> register_loop m ([] @ rest) w = register_loop m rest w" by simp
  then show ?case by blast
next
  case (Cons x pre)
  obtain name c where x: "x = (name, c)" by (cases x)
  obtain r l0 where i: "impl m c (lib w) = (r, l0)" by (cases "impl m c (lib w)")
  from Cons.prems x i have r: "r = None" and run: "adapter_run (impl m) (map snd pre) l0 = Some l1"
    by (auto split: option.splits)
  let ?w' = "log_Info (log m) (Sprintf ''Successfully registered metric: %s'' [ArgString name])
      ((log_Info (log m) (Sprintf ''Attempting to register metric collector: %s'' [ArgCollector c])
         (log_Info (log m) (Sprintf ''Attempting to register metric name: %s'' [ArgString name]) w))
       \<lparr>lib := l0\<rparr>)"
  have step: "register_loop m ((x # pre) @ rest) w = register_loop m (pre @ rest) ?w'"
    by (simp add: x i r Let_def)
  have "lib ?w' = l0" by simp
  with run have "adapter_run (impl m) (map snd pre) (lib ?w') = Some l1" by simp
  from Cons.IH [OF this] show ?case unfolding step .
qed

lemma register_loop_head_fails:
  "impl m c (lib w) = (Some e, l') \<Longrightarrow>
   fst (register_loop m ((name, c) # rest) w) =
     Some (Wrapf e (''register collector for '' @ name @ '' metric'')) \<and>
   lib (snd (register_loop m ((name, c) # rest) w)) = l'"
  by (simp add: Let_def)

lemma Register_default_fails_at:
  assumes imp: "impl m = defaultImpl_Register"
    and ord: "order = pre @ (name, c) # post"
    and d: "distinct (map fq (map snd pre))"
    and fresh: "set (map fq (map snd pre)) \<inter> set (registered_names (lib w)) = {}"
    and dup: "fq c \<in> set (registered_names (lib w)) \<union> set (map fq (map snd pre))"
  shows "fst (Register m order w) =
           Some (Wrapf (DuplicateRegistration (fq c)) (''register collector for '' @ name @ '' metric''))"
    and "registry (lib (snd (Register m order w))) = registry (lib w) @ map snd pre"
proof -
  from adapter_run_default_ok [OF d fresh]
  obtain l1 where run: "adapter_run defaultImpl_Register (map snd pre) (lib w) = Some l1" by blast
  have reg1: "registry l1 = registry (lib w) @ map snd pre"
    by (rule adapter_run_default_registry [OF run])
  from run imp have "adapter_run (impl m) (map snd pre) (lib w) = Some l1" by simp
  from register_loop_append_ok [OF this, of "(name, c) # post"]
  obtain w' where lw: "lib w' = l1"
    and step: "register_loop m (pre @ (name, c) # post) w = register_loop m ((name, c) # post) w'"
    by blast
  have names1: "registered_names l1 = registered_names (lib w) @ map fq (map snd pre)"
    by (rule registered_names_append [OF reg1])
  with dup have in1: "fq c \<in> set (registered_names l1)" by auto
  obtain r l2 where i: "defaultImpl_Register c l1 = (r, l2)" by (cases "defaultImpl_Register c l1")
  from i in1 defaultImpl_Register_fst [of c l1] have r: "r = Some (DuplicateRegistration (fq c))"
    by simp
  from i in1 defaultImpl_Register_registry [of c l1] have reg2: "registry l2 = registry l1" by simp
  from i r imp lw have "impl m c (lib w') = (Some (DuplicateRegistration (fq c)), l2)" by simp
  from register_loop_head_fails [OF this, of name post]
  show "fst (Register m order w) =
           Some (Wrapf (DuplicateRegistration (fq c)) (''register collector for '' @ name @ '' metric''))"
    and "registry (lib (snd (Register m order w))) = registry (lib w) @ map snd pre"
    unfolding Register_def ord step by (simp_all add: reg2 reg1)
qed

lemma New_simps [simp]:
  "impl (fst (New w)) = defaultImpl_Register"
  "lib (snd (New w)) = lib w"
  "series (snd (New w)) =
     (series w)(next_addr w := [], Suc (next_addr w) := [], Suc (Suc (next_addr w)) := [],
                Suc (Suc (Suc (next_addr w))) := [])"
  by (simp_all add: New_def DefaultControllerMetrics_snd)

lemma New_constructed: "constructed (fst (New w))"
  by (simp add: New_def NewMetrics_constructed)

lemma New_instrument_names: "instrument_names (fst (New w)) = instrument_names (fst (New w'))"
  by (simp add: constructed_instrument_names [OF New_constructed])

lemma range_order_refl: "range_order (collectors m) (collectors m)"
  by (simp add: range_order_def distinct_collectors)

lemma range_order_rev: "range_order (collectors m) (rev (collectors m))"
  by (simp add: range_order_def distinct_collectors)

lemma Register_default_ok:
  assumes imp: "impl m = defaultImpl_Register"
    and c: "constructed m"
    and ro: "range_order (collectors m) order"
    and fresh: "set (registered_names (lib w)) \<inter> set (instrument_names m) = {}"
  shows "fst (Register m order w) = None"
    and "registry (lib (snd (Register m order w))) = registry (lib w) @ map snd order"
proof -
  have d: "distinct (map fq (map snd order))"
    by (rule range_order_distinct_fq(1) [OF c ro])
  have s: "set (map fq (map snd order)) = set (instrument_names m)"
    by (rule range_order_distinct_fq(2) [OF c ro])
  from fresh s have "set (map fq (map snd order)) \<inter> set (registered_names (lib w)) = {}"
    by auto
  from adapter_run_default_ok [OF d this]
  obtain l where run: "adapter_run defaultImpl_Register (map snd order) (lib w) = Some l" by blast
  then have "adapter_run (impl m) (map snd order) (lib w) = Some l" by (simp add: imp)
  from register_loop_ok [OF this]
  show "fst (Register m order w) = None"
    and "registry (lib (snd (Register m order w))) = registry (lib w) @ map snd order"
    by (simp_all add: Register_def adapter_run_default_registry [OF run])
qed

subsection \<open>The scrape\<close>

lemma fst_scrape_collector:
  "fst ` set (scrape_collector u c) = (if series u (collector_addr c) = [] then {} else {fq c})"
proof (cases "series u (collector_addr c)")
  case Nil
  then show ?thesis by (simp add: scrape_collector_def)
next
  case (Cons p ps)
  then show ?thesis
    by (auto simp: scrape_collector_def image_image split_def fq_def)
qed

lemma visible_names_iff:
  "x \<in> visible_names u \<longleftrightarrow>
     (\<exists>c \<in> set (registry (lib u)). fq c = x \<and> series u (collector_addr c) \<noteq> [])"
proof -
  have "visible_names u = (\<Union>c \<in> set (registry (lib u)). fst ` set (scrape_collector u c))"
    by (auto simp: visible_names_def scrape_def)
  then show ?thesis
    by (auto simp: fst_scrape_collector split: if_splits)
qed

lemma defaultImpl_Register_twice:
  "fst (defaultImpl_Register c (snd (defaultImpl_Register c l))) = Some (DuplicateRegistration (fq c))"
proof -
  have "registry (snd (defaultImpl_Register c l)) = registry l \<or>
        registry (snd (defaultImpl_Register c l)) = registry l @ [c]"
    by (simp add: defaultImpl_Register_registry)
  moreover have "registry (snd (defaultImpl_Register c l)) = registry l \<longrightarrow>
      fq c \<in> set (registered_names l)"
    by (simp add: defaultImpl_Register_registry)
  ultimately have "fq c \<in> set (registered_names (snd (defaultImpl_Register c l)))"
    by (auto simp: registered_names_def fq_def)
  then show ?thesis by (simp add: defaultImpl_Register_fst)
qed

lemma collectors_fq_inj:
  assumes c: "constructed m"
  shows "inj_on fq (snd ` set (collectors m))"
proof -
  have "distinct (map fq (map snd (collectors m)))"
    by (rule range_order_distinct_fq(1) [OF c range_order_refl])
  then have "inj_on fq (set (map snd (collectors m)))"
    by (simp only: distinct_map)
  then show ?thesis by simp
qed

subsection \<open>The concrete worlds\<close>

lemma constructed_fq:
  assumes "constructed m"
  shows "fq (CounterVecCollector (metricComplianceScanError (metrics m))) =
           ''compliance_operator_compliance_scan_error_total''"
    and "fq (CounterVecCollector (metricComplianceScanStatus (metrics m))) =
           ''compliance_operator_compliance_scan_status_total''"
    and "fq (CounterVecCollector (metricComplianceRemediationStatus (metrics m))) =
           ''compliance_operator_compliance_remediation_status_total''"
    and "fq (GaugeVecCollector (metricComplianceStateGauge (metrics m))) =
           ''compliance_operator_compliance_state''"
  using constructed_instrument_names [OF assms]
  by (simp_all add: instrument_names_def collectors_def)

lemma reporter1_constructed: "constructed reporter1"
  by (simp add: reporter1_def New_constructed)


lemma reporter1_impl: "impl reporter1 = defaultImpl_Register"
  by (simp add: reporter1_def)

lemma reporter1_started1: "(reporter1, started1) = New started0"
  by (simp add: reporter1_def started1_def)

lemma reporter0_New: "(reporter0, started0) = New world0"
  by (simp add: reporter0_def started0_def)

lemma lib_started: "lib started0 = lib world0" "lib started1 = lib world0"
  by (simp_all add: started0_def started1_def)

lemma registered_names_world0: "registered_names (lib world0) = []"
  by (simp add: registered_names_def world0_def)

lemma series_started0: "series started0 a = []"
  by (simp add: started0_def world0_def)

lemma contested_registry:
  "registry (lib contested) = [CounterVecCollector (metricComplianceScanStatus (metrics reporter0))]"
  "registered_names (lib contested) = [''compliance_operator_compliance_scan_status_total'']"
proof -
  have n: "fq (CounterVecCollector (metricComplianceScanStatus (metrics reporter0))) \<notin>
      set (registered_names (lib started1))"
    by (simp add: lib_started registered_names_world0)
  have "registry (lib started1) = []" by (simp add: lib_started world0_def)
  with n show r: "registry (lib contested) =
      [CounterVecCollector (metricComplianceScanStatus (metrics reporter0))]"
    by (simp add: contested_def defaultImpl_Register_registry)
  show "registered_names (lib contested) = [''compliance_operator_compliance_scan_status_total'']"
    using constructed_fq(2) [OF reporter0_constructed]
    by (simp add: registered_names_def r fq_def)
qed

lemma contested_literal_order:
  "fst (Register reporter1 (collectors reporter1) contested) =
     Some (Wrapf (DuplicateRegistration ''compliance_operator_compliance_scan_status_total'')
             ''register collector for compliance_scan_status_total metric'')"
  "registry (lib (snd (Register reporter1 (collectors reporter1) contested))) =
     [CounterVecCollector (metricComplianceScanStatus (metrics reporter0)),
      CounterVecCollector (metricComplianceScanError (metrics reporter1))]"
proof -
  let ?pre = "[(metricNameComplianceScanError,
                CounterVecCollector (metricComplianceScanError (metrics reporter1)))]"
  let ?post = "[(metricNameComplianceRemediationStatus,
                 CounterVecCollector (metricComplianceRemediationStatus (metrics reporter1))),
                (metricNameComplianceStateGauge,
                 GaugeVecCollector (metricComplianceStateGauge (metrics reporter1)))]"
  let ?c = "CounterVecCollector (metricComplianceScanStatus (metrics reporter1))"
  have ord: "collectors reporter1 = ?pre @ (metricNameComplianceScanStatus, ?c) # ?post"
    by (simp add: collectors_def)
  have d: "distinct (map fq (map snd ?pre))" by simp
  have f: "set (map fq (map snd ?pre)) \<inter> set (registered_names (lib contested)) = {}"
    by (simp add: contested_registry constructed_fq [OF reporter1_constructed])
  have dup: "fq ?c \<in> set (registered_names (lib contested)) \<union> set (map fq (map snd ?pre))"
    by (simp add: contested_registry constructed_fq [OF reporter1_constructed])
  from Register_default_fails_at(1) [OF reporter1_impl ord d f dup]
  show "fst (Register reporter1 (collectors reporter1) contested) =
     Some (Wrapf (DuplicateRegistration ''compliance_operator_compliance_scan_status_total'')
             ''register collector for compliance_scan_status_total metric'')"
    by (simp add: constructed_fq [OF reporter1_constructed] metricNameComplianceScanStatus_def)
  from Register_default_fails_at(2) [OF reporter1_impl ord d f dup]
  show "registry (lib (snd (Register reporter1 (collectors reporter1) contested))) =
     [CounterVecCollector (metricComplianceScanStatus (metrics reporter0)),
      CounterVecCollector (metricComplianceScanError (metrics reporter1))]"
    by (simp add: contested_registry)
qed

lemma contested_reverse_order:
  "fst (Register reporter1 (rev (collectors reporter1)) contested) =
     Some (Wrapf (DuplicateRegistration ''compliance_operator_compliance_scan_status_total'')
             ''register collector for compliance_scan_status_total metric'')"
  "registry (lib (snd (Register reporter1 (rev (collectors reporter1)) contested))) =
     [CounterVecCollector (metricComplianceScanStatus (metrics reporter0)),
      GaugeVecCollector (metricComplianceStateGauge (metrics reporter1)),
      CounterVecCollector (metricComplianceRemediationStatus (metrics reporter1))]"
proof -
  let ?pre = "[(metricNameComplianceStateGauge,
                 GaugeVecCollector (metricComplianceStateGauge (metrics reporter1))),
               (metricNameComplianceRemediationStatus,
                 CounterVecCollector (metricComplianceRemediationStatus (metrics reporter1)))]"
  let ?post = "[(metricNameComplianceScanError,
                CounterVecCollector (metricComplianceScanError (metrics reporter1)))]"
  let ?c = "CounterVecCollector (metricComplianceScanStatus (metrics reporter1))"
  have ord: "rev (collectors reporter1) = ?pre @ (metricNameComplianceScanStatus, ?c) # ?post"
    by (simp add: collectors_def)
  have d: "distinct (map fq (map snd ?pre))"
    by (simp add: constructed_fq [OF reporter1_constructed])
  have f: "set (map fq (map snd ?pre)) \<inter> set (registered_names (lib contested)) = {}"
    by (simp add: contested_registry constructed_fq [OF reporter1_constructed])
  have dup: "fq ?c \<in> set (registered_names (lib contested)) \<union> set (map fq (map snd ?pre))"
    by (simp add: contested_registry constructed_fq [OF reporter1_constructed])
  from Register_default_fails_at(1) [OF reporter1_impl ord d f dup]
  show "fst (Register reporter1 (rev (collectors reporter1)) contested) =
     Some (Wrapf (DuplicateRegistration ''compliance_operator_compliance_scan_status_total'')
             ''register collector for compliance_scan_status_total metric'')"
    by (simp add: constructed_fq [OF reporter1_constructed] metricNameComplianceScanStatus_def)
  from Register_default_fails_at(2) [OF reporter1_impl ord d f dup]
  show "registry (lib (snd (Register reporter1 (rev (collectors reporter1)) contested))) =
     [CounterVecCollector (metricComplianceScanStatus (metrics reporter0)),
      GaugeVecCollector (metricComplianceStateGauge (metrics reporter1)),
      CounterVecCollector (metricComplianceRemediationStatus (metrics reporter1))]"
    by (simp add: contested_registry)
qed

lemma Register_default_no_rollback:
  assumes imp: "impl m = defaultImpl_Register" and fails: "fst (Register m order w) = Some er"
  shows "\<exists>pre name c post. order = pre @ (name, c) # post \<and>
         er = Wrapf (DuplicateRegistration (fq c)) (''register collector for '' @ name @ '' metric'') \<and>
         registry (lib (snd (Register m order w))) = registry (lib w) @ map snd pre"
proof -
  from fails have "fst (register_loop m order w) = Some er" by (simp add: Register_def)
  from register_loop_fails [OF this]
  obtain pre name c post e l1 where ord: "order = pre @ (name, c) # post"
    and run: "adapter_run (impl m) (map snd pre) (lib w) = Some l1"
    and call: "impl m c l1 = (Some e, lib (snd (register_loop m order w)))"
    and er: "er = Wrapf e (''register collector for '' @ name @ '' metric'')"
    by (elim exE conjE) (rule that, assumption+)
  from run imp have "adapter_run defaultImpl_Register (map snd pre) (lib w) = Some l1" by simp
  then have reg1: "registry l1 = registry (lib w) @ map snd pre"
    by (rule adapter_run_default_registry)
  from call imp have c1: "fst (defaultImpl_Register c l1) = Some e"
    and c2: "snd (defaultImpl_Register c l1) = lib (snd (register_loop m order w))"
    by simp_all
  from c1 have dup: "fq c \<in> set (registered_names l1)" and e: "e = DuplicateRegistration (fq c)"
    by (auto simp: defaultImpl_Register_fst split: if_splits)
  from dup defaultImpl_Register_registry [of c l1]
  have "registry (snd (defaultImpl_Register c l1)) = registry l1" by simp
  with c2 have reg2: "registry (lib (snd (Register m order w))) = registry l1"
    by (simp add: Register_def)
  have "order = pre @ (name, c) # post \<and>
         er = Wrapf (DuplicateRegistration (fq c)) (''register collector for '' @ name @ '' metric'') \<and>
         registry (lib (snd (Register m order w))) = registry (lib w) @ map snd pre"
    using ord er e reg1 reg2 by simp
  then show ?thesis
    apply (rule_tac x = pre in exI)
    apply (rule_tac x = name in exI)
    apply (rule_tac x = c in exI)
    apply (rule_tac x = post in exI)
    apply assumption
    done
qed

subsection \<open>Start, once more\<close>

lemma handler_bound_literal: "handler_bound w \<longleftrightarrow> ''/metrics-co'' \<in> fst ` set (mux w)"
  by (simp add: handler_bound_def HandlerPath_def)

lemma Start_panics_iff: "fst (Start m ctx e w) = Panicked \<longleftrightarrow> handler_bound w"
proof (cases "handler_bound w")
  case True
  then show ?thesis by (simp add: Start_bound)
next
  case False
  then show ?thesis
    by (simp add: Start_free split: listen.splits option.splits)
qed

lemma Start_free_mux:
  "\<not> handler_bound w \<Longrightarrow>
   mux (snd (Start m ctx e w)) = mux w @ [(''/metrics-co'', promhttp_Handler)]"
  by (simp add: Start_free split: listen.splits option.splits)

lemma Start_no_certificate_started0:
  "fst (Start reporter0 \<lparr>cancelled = False\<rparr> env_no_certificate started0) = Returned None"
proof -
  have "Start_listen env_no_certificate =
     Stops (Some (ListenerFailure
       ''open /var/run/secrets/serving-cert/tls.crt: no such file or directory''))"
    by (simp add: Start_listen_def env_no_certificate_def)
  then show ?thesis by (simp add: Start_free [OF started0_free])
qed

lemma mux_started0: "mux started0 = []"
  by (simp add: started0_def New_def DefaultControllerMetrics_snd world0_def)

section \<open>The claims\<close>

subsection \<open>Start: errors are swallowed\<close>




subsection \<open>IncComplianceScanStatus: one call\<close>

text \<open>
  C2. For a Reporter built by the constructor, a call of \<open>IncComplianceScanStatus\<close> does
  not panic, raises the scan-status reading of (name, phase, result) by exactly one, raises
  the scan-error reading of the name by exactly one when the error message is non-empty and
  leaves it unchanged when the message is empty; no other scan-status tuple and no other
  scan-error name changes.
\<close>

theorem IncComplianceScanStatus_increments:
  assumes c: "constructed m"
  shows "\<exists>w'. IncComplianceScanStatus m name status w = Some w' \<and>
     scan_status_reading m w' name (Phase status) (Result status) =
       scan_status_reading m w name (Phase status) (Result status) + 1 \<and>
     (ErrorMessage status \<noteq> [] \<longrightarrow> scan_error_reading m w' name = scan_error_reading m w name + 1) \<and>
     (ErrorMessage status = [] \<longrightarrow> scan_error_reading m w' name = scan_error_reading m w name) \<and>
     (\<forall>n p r. (n, p, r) \<noteq> (name, Phase status, Result status) \<longrightarrow>
        scan_status_reading m w' n p r = scan_status_reading m w n p r) \<and>
     (\<forall>n. n \<noteq> name \<longrightarrow> scan_error_reading m w' n = scan_error_reading m w n)"
  by (auto simp: IncComplianceScanStatus_constructed [OF c] Let_def scan_status_reading_def
      scan_error_reading_def reading_observe constructed_neq [OF c])

theorem IncComplianceScanStatus_increments_witness:
  "constructed reporter0 \<and>
   IncComplianceScanStatus reporter0 ''scan-a''
     \<lparr>Phase = ''DONE'', Result = ''ERROR'', ErrorMessage = ''timed out''\<rparr> started0 \<noteq> None \<and>
   scan_status_reading reporter0
     (the (IncComplianceScanStatus reporter0 ''scan-a''
        \<lparr>Phase = ''DONE'', Result = ''ERROR'', ErrorMessage = ''timed out''\<rparr> started0))
     ''scan-a'' ''DONE'' ''ERROR'' = 1 \<and>
   scan_error_reading reporter0
     (the (IncComplianceScanStatus reporter0 ''scan-a''
        \<lparr>Phase = ''DONE'', Result = ''ERROR'', ErrorMessage = ''timed out''\<rparr> started0))
     ''scan-a'' = 1"
  using IncComplianceScanStatus_increments
    [OF reporter0_constructed, of "''scan-a''"
        "\<lparr>Phase = ''DONE'', Result = ''ERROR'', ErrorMessage = ''timed out''\<rparr>" started0]
    reporter0_constructed
  by (auto simp: started0_readings)

subsection \<open>Register: the first failure\<close>



subsection \<open>The compliance-state gauge\<close>

text \<open>
  C4. For a Reporter built by the constructor, no sequence of recording calls panics, and
  afterwards the compliance-state gauge of a suite holds the ordinal of the last setter
  called for that suite in the sequence (it is unchanged when there is none), whatever was
  called before and however often; in particular, when the last call of the sequence is a
  setter for the suite, the gauge holds that setter's ordinal. The four setters write 0
  (in compliance), 1 (out of compliance), 2 (inconsistent) and 3 (error). Counted from
  construction, every value of the gauge is one of these four, and calling a setter again
  right after itself changes nothing.
\<close>

theorem compliance_state_reads_last_setter:
  assumes c: "constructed m"
  shows "\<exists>w'. do_calls m cs w = Some w' \<and>
     compliance_state_sample m w' n =
       (case last_ordinal cs n of Some v \<Rightarrow> Some v | None \<Rightarrow> compliance_state_sample m w n) \<and>
     (\<forall>v. cs \<noteq> [] \<and> ordinal_of (last cs) n = Some v \<longrightarrow> compliance_state_sample m w' n = Some v) \<and>
     ((m, w) = NewMetrics imp w0 \<longrightarrow>
        (\<forall>s v. compliance_state_sample m w' s = Some v \<longrightarrow> v \<in> {0, 1, 2, 3})) \<and>
     (\<forall>k v u u'. ordinal_of k n = Some v \<and> do_call m k u = Some u' \<longrightarrow> do_call m k u' = Some u') \<and>
     (\<exists>u. SetComplianceStateInCompliance m n w = Some u \<and> compliance_state_sample m u n = Some 0) \<and>
     (\<exists>u. SetComplianceStateOutOfCompliance m n w = Some u \<and> compliance_state_sample m u n = Some 1) \<and>
     (\<exists>u. SetComplianceStateInconsistent m n w = Some u \<and> compliance_state_sample m u n = Some 2) \<and>
     (\<exists>u. SetComplianceStateError m n w = Some u \<and> compliance_state_sample m u n = Some 3)"
proof -
  from do_calls_total [OF c] obtain w' where w': "do_calls m cs w = Some w'" by blast
  have g: "compliance_state_sample m w' s =
       (case last_ordinal cs s of Some v \<Rightarrow> Some v | None \<Rightarrow> compliance_state_sample m w s)" for s
    by (rule do_calls_gauge [OF c w'])
  have 2: "\<forall>v. cs \<noteq> [] \<and> ordinal_of (last cs) n = Some v \<longrightarrow> compliance_state_sample m w' n = Some v"
    by (simp add: g last_ordinal_last)
  have 3: "\<forall>s v. compliance_state_sample m w' s = Some v \<longrightarrow> v \<in> {0, 1, 2, 3}"
    if "(m, w) = NewMetrics imp w0"
  proof (intro allI impI)
    fix s v
    assume sv: "compliance_state_sample m w' s = Some v"
    have "compliance_state_sample m w s = None"
      unfolding compliance_state_sample_def by (rule NewMetrics_fresh [OF that]) simp
    with sv g [of s] have "last_ordinal cs s = Some v"
      by (simp split: option.splits)
    then show "v \<in> {0, 1, 2, 3}" by (rule last_ordinal_range)
  qed
  have 4: "\<forall>k v u u'. ordinal_of k n = Some v \<and> do_call m k u = Some u' \<longrightarrow> do_call m k u' = Some u'"
    using setter_idem [OF c] by blast
  have 5: "\<exists>u. SetComplianceStateInCompliance m n w = Some u \<and> compliance_state_sample m u n = Some 0"
    by (simp add: Set_constructed [OF c] compliance_state_sample_def sample_put)
  have 6: "\<exists>u. SetComplianceStateOutOfCompliance m n w = Some u \<and> compliance_state_sample m u n = Some 1"
    by (simp add: Set_constructed [OF c] compliance_state_sample_def sample_put)
  have 7: "\<exists>u. SetComplianceStateInconsistent m n w = Some u \<and> compliance_state_sample m u n = Some 2"
    by (simp add: Set_constructed [OF c] compliance_state_sample_def sample_put)
  have 8: "\<exists>u. SetComplianceStateError m n w = Some u \<and> compliance_state_sample m u n = Some 3"
    by (simp add: Set_constructed [OF c] compliance_state_sample_def sample_put)
  from w' g [of n] 2 3 4 5 6 7 8 show ?thesis by blast
qed

theorem compliance_state_reads_last_setter_witness:
  "constructed reporter0 \<and>
   setter_calls_example \<noteq> [] \<and>
   ordinal_of (last setter_calls_example) ''suite-a'' = Some 1 \<and>
   do_calls reporter0 setter_calls_example started0 \<noteq> None \<and>
   compliance_state_sample reporter0 (the (do_calls reporter0 setter_calls_example started0))
     ''suite-a'' = Some 1"
proof -
  from compliance_state_reads_last_setter
    [OF reporter0_constructed,
      where cs = setter_calls_example and w = started0 and n = "''suite-a''"
        and imp = defaultImpl_Register and ?w0.0 = world0]
  obtain w' where 1: "do_calls reporter0 setter_calls_example started0 = Some w'"
    and 2: "\<forall>v. setter_calls_example \<noteq> [] \<and> ordinal_of (last setter_calls_example) ''suite-a'' = Some v
        \<longrightarrow> compliance_state_sample reporter0 w' ''suite-a'' = Some v"
    by blast
  have 3: "setter_calls_example \<noteq> [] \<and> ordinal_of (last setter_calls_example) ''suite-a'' = Some 1"
    by (simp add: setter_calls_example_def)
  from 1 2 3 reporter0_constructed show ?thesis by simp
qed

subsection \<open>The scan-status counter over sequences of calls\<close>

text \<open>
  C5. For a Reporter built by the constructor, no sequence of recording calls panics, and
  afterwards the scan-status reading of a tuple has grown by exactly the number of
  \<open>IncComplianceScanStatus\<close> calls for that tuple in the sequence, whatever other calls are
  interleaved; counted from construction it is exactly that number. No reading of the three
  counters decreases and no counter child disappears; \<open>Register\<close> and \<open>Start\<close> leave
  every child as it is.
\<close>

theorem scan_status_counts_calls:
  assumes c: "constructed m"
  shows "\<exists>w'. do_calls m cs w = Some w' \<and>
     scan_status_reading m w' n p r = scan_status_reading m w n p r + scan_calls cs n p r \<and>
     ((m, w) = NewMetrics imp w0 \<longrightarrow> scan_status_reading m w' n p r = scan_calls cs n p r) \<and>
     (\<forall>a \<in> set (counter_addrs m). \<forall>lvs.
        reading w a lvs \<le> reading w' a lvs \<and> (sample w a lvs \<noteq> None \<longrightarrow> sample w' a lvs \<noteq> None)) \<and>
     series (snd (Register m order w)) = series w \<and>
     series (snd (Start m ctx e w)) = series w"
proof -
  from do_calls_total [OF c] obtain w' where w': "do_calls m cs w = Some w'" by blast
  have 1: "scan_status_reading m w' n p r = scan_status_reading m w n p r + scan_calls cs n p r"
    by (rule do_calls_scan_status [OF c w'])
  have 2: "scan_status_reading m w' n p r = scan_calls cs n p r" if "(m, w) = NewMetrics imp w0"
  proof -
    have "sample w (cv_addr (metricComplianceScanStatus (metrics m))) [n, p, r] = None"
      by (rule NewMetrics_fresh [OF that]) (simp add: counter_addrs_def)
    then have "scan_status_reading m w n p r = 0"
      by (simp add: scan_status_reading_def reading_def)
    with 1 show ?thesis by simp
  qed
  have 3: "\<forall>a \<in> set (counter_addrs m). \<forall>lvs.
        reading w a lvs \<le> reading w' a lvs \<and> (sample w a lvs \<noteq> None \<longrightarrow> sample w' a lvs \<noteq> None)"
    using do_calls_counter_mono [OF c _ w'] by blast
  have 4: "series (snd (Register m order w)) = series w"
    by (rule Register_series)
  have 5: "series (snd (Start m ctx e w)) = series w"
    by (rule Start_series)
  from w' 1 2 3 4 5 show ?thesis by blast
qed

theorem scan_status_counts_calls_witness:
  "constructed reporter0 \<and>
   (reporter0, started0) = NewMetrics defaultImpl_Register world0 \<and>
   do_calls reporter0 scan_calls_example started0 \<noteq> None \<and>
   scan_status_reading reporter0 (the (do_calls reporter0 scan_calls_example started0))
     ''scan-a'' ''RUNNING'' ''NOT-AVAILABLE'' = 2"
proof -
  from scan_status_counts_calls
    [OF reporter0_constructed,
      where cs = scan_calls_example and w = started0 and n = "''scan-a''" and p = "''RUNNING''"
        and r = "''NOT-AVAILABLE''" and imp = defaultImpl_Register and ?w0.0 = world0
        and order = "[]" and ctx = "\<lparr>cancelled = False\<rparr>" and e = env_serving]
  obtain w' where 1: "do_calls reporter0 scan_calls_example started0 = Some w'"
    and 2: "(reporter0, started0) = NewMetrics defaultImpl_Register world0 \<longrightarrow>
      scan_status_reading reporter0 w' ''scan-a'' ''RUNNING'' ''NOT-AVAILABLE'' =
        scan_calls scan_calls_example ''scan-a'' ''RUNNING'' ''NOT-AVAILABLE''"
    by blast
  have 3: "scan_calls scan_calls_example ''scan-a'' ''RUNNING'' ''NOT-AVAILABLE'' = 2"
    by (simp add: scan_calls_def scan_calls_example_def)
  from 1 2 3 reporter0_started0 reporter0_constructed show ?thesis by simp
qed

subsection \<open>Registering twice, and the scrape\<close>

text \<open>
  C6, as amended. Let two Reporters be constructed one after the other with the default
  adapter, in a process whose registry holds none of the four identities. Then
  \<open>Register\<close> on the first succeeds and adds its four collectors to the registry, so that
  the four identities are registered; \<open>Register\<close> on the second then fails at the first
  entry it visits, with the duplicate-registration error for that entry's identity wrapped
  with its metric name, and leaves the registry as it was. At the adapter, registering the
  same collector twice fails the second time with the duplicate-registration error. After
  the successful \<open>Register\<close>, the name of each of the four instruments is visible in a
  scrape exactly when the instrument has a data point.
\<close>

theorem second_Register_is_duplicate:
  assumes n1: "(m1, w1) = New w0" and n2: "(m2, w2) = New w1"
    and fresh: "set (registered_names (lib w0)) \<inter> set (instrument_names m1) = {}"
    and o1: "range_order (collectors m1) o1" and o2: "range_order (collectors m2) o2"
    and w3: "w3 = snd (Register m1 o1 w2)"
  shows "fst (Register m1 o1 w2) = None \<and>
     registry (lib w3) = registry (lib w0) @ map snd o1 \<and>
     set (instrument_names m1) \<subseteq> set (registered_names (lib w3)) \<and>
     (\<exists>name c rest. o2 = (name, c) # rest \<and>
        fst (Register m2 o2 w3) =
          Some (Wrapf (DuplicateRegistration (fq c))
                  (''register collector for '' @ name @ '' metric''))) \<and>
     registry (lib (snd (Register m2 o2 w3))) = registry (lib w3) \<and>
     (\<forall>c l. fst (defaultImpl_Register c (snd (defaultImpl_Register c l))) =
        Some (DuplicateRegistration (fq c))) \<and>
     (\<forall>u c. lib u = lib w3 \<and> c \<in> snd ` set (collectors m1) \<longrightarrow>
        (fq c \<in> visible_names u \<longleftrightarrow> series u (collector_addr c) \<noteq> []))"
proof -
  from n1 have m1: "m1 = fst (New w0)" and w1: "w1 = snd (New w0)"
    by (metis fst_conv, metis snd_conv)
  from n2 have m2: "m2 = fst (New w1)" and w2: "w2 = snd (New w1)"
    by (metis fst_conv, metis snd_conv)
  have c1: "constructed m1" and i1: "impl m1 = defaultImpl_Register"
    by (simp_all add: m1 New_constructed)
  have c2: "constructed m2" and i2: "impl m2 = defaultImpl_Register"
    by (simp_all add: m2 New_constructed)
  have l2: "lib w2 = lib w0" by (simp add: w2 w1)
  have names: "instrument_names m2 = instrument_names m1"
    unfolding m1 m2 by (rule New_instrument_names)
  from fresh l2 have fresh2: "set (registered_names (lib w2)) \<inter> set (instrument_names m1) = {}"
    by simp
  have a: "fst (Register m1 o1 w2) = None"
    by (rule Register_default_ok(1) [OF i1 c1 o1 fresh2])
  have b: "registry (lib w3) = registry (lib w0) @ map snd o1"
    unfolding w3 using Register_default_ok(2) [OF i1 c1 o1 fresh2] by (simp add: l2)
  have rn: "registered_names (lib w3) = registered_names (lib w0) @ map fq (map snd o1)"
    by (rule registered_names_append [OF b])
  have s1: "set (map fq (map snd o1)) = set (instrument_names m1)"
    by (rule range_order_distinct_fq(2) [OF c1 o1])
  have c: "set (instrument_names m1) \<subseteq> set (registered_names (lib w3))"
    using rn s1 by auto
  have "length o2 = 4" by (rule range_order_length [OF o2])
  then obtain name k rest where o2c: "o2 = (name, k) # rest"
    by (cases o2) auto
  have "fq k \<in> set (map fq (map snd o2))" by (simp add: o2c)
  then have "fq k \<in> set (instrument_names m2)"
    by (simp only: range_order_distinct_fq(2) [OF c2 o2])
  with names c have dup: "fq k \<in> set (registered_names (lib w3)) \<union> set (map fq (map snd []))"
    by auto
  have o2c': "o2 = [] @ (name, k) # rest" by (simp add: o2c)
  have d: "fst (Register m2 o2 w3) =
          Some (Wrapf (DuplicateRegistration (fq k))
                  (''register collector for '' @ name @ '' metric''))"
    by (rule Register_default_fails_at(1) [OF i2 o2c' _ _ dup]) simp_all
  have e: "registry (lib (snd (Register m2 o2 w3))) = registry (lib w3)"
    using Register_default_fails_at(2) [OF i2 o2c' _ _ dup] by simp
  have f: "\<forall>c l. fst (defaultImpl_Register c (snd (defaultImpl_Register c l))) =
        Some (DuplicateRegistration (fq c))"
    by (simp add: defaultImpl_Register_twice)
  have g: "fq c \<in> visible_names u \<longleftrightarrow> series u (collector_addr c) \<noteq> []"
    if u: "lib u = lib w3" and cin: "c \<in> snd ` set (collectors m1)" for u c
  proof
    assume "series u (collector_addr c) \<noteq> []"
    moreover from cin o1 have "c \<in> set (map snd o1)"
      by (simp add: range_order_def)
    ultimately show "fq c \<in> visible_names u"
      unfolding visible_names_iff u b by auto
  next
    assume "fq c \<in> visible_names u"
    then obtain c' where c': "c' \<in> set (registry (lib w3))" and eq: "fq c' = fq c"
      and ne: "series u (collector_addr c') \<noteq> []"
      unfolding visible_names_iff u by blast
    from cin have "fq c \<in> set (instrument_names m1)"
      by (auto simp: instrument_names_def split_def)
    with fresh eq have "c' \<notin> set (registry (lib w0))"
      by (auto simp: registered_names_def fq_def)
    with c' b have "c' \<in> set (map snd o1)" by auto
    with o1 have "c' \<in> snd ` set (collectors m1)"
      by (simp add: range_order_def)
    with collectors_fq_inj [OF c1] cin eq have "c' = c"
      by (auto dest: inj_onD)
    with ne show "series u (collector_addr c) \<noteq> []" by simp
  qed
  from a b c d e f g o2c show ?thesis by blast
qed

theorem second_Register_is_duplicate_witness:
  "(reporter0, started0) = New world0 \<and> (reporter1, started1) = New started0 \<and>
   set (registered_names (lib world0)) \<inter> set (instrument_names reporter0) = {} \<and>
   range_order (collectors reporter0) (collectors reporter0) \<and>
   range_order (collectors reporter1) (rev (collectors reporter1)) \<and>
   fst (Register reporter0 (collectors reporter0) started1) = None \<and>
   fst (Register reporter1 (rev (collectors reporter1))
          (snd (Register reporter0 (collectors reporter0) started1))) =
     Some (Wrapf (DuplicateRegistration ''compliance_operator_compliance_state'')
             ''register collector for compliance_state metric'')"
proof -
  have fresh: "set (registered_names (lib world0)) \<inter> set (instrument_names reporter0) = {}"
    by (simp add: registered_names_world0)
  from second_Register_is_duplicate
    [OF reporter0_New reporter1_started1 fresh range_order_refl range_order_rev refl]
  obtain name c rest where ok: "fst (Register reporter0 (collectors reporter0) started1) = None"
    and hd: "rev (collectors reporter1) = (name, c) # rest"
    and dup: "fst (Register reporter1 (rev (collectors reporter1))
          (snd (Register reporter0 (collectors reporter0) started1))) =
        Some (Wrapf (DuplicateRegistration (fq c)) (''register collector for '' @ name @ '' metric''))"
    by blast
  from hd have name: "name = ''compliance_state''"
    and c: "c = GaugeVecCollector (metricComplianceStateGauge (metrics reporter1))"
    by (simp_all add: collectors_def metricNameComplianceStateGauge_def)
  from dup have "fst (Register reporter1 (rev (collectors reporter1))
          (snd (Register reporter0 (collectors reporter0) started1))) =
     Some (Wrapf (DuplicateRegistration ''compliance_operator_compliance_state'')
             ''register collector for compliance_state metric'')"
    unfolding name c by (simp add: constructed_fq [OF reporter1_constructed])
  with ok fresh reporter0_New reporter1_started1 range_order_refl range_order_rev
  show ?thesis by blast
qed

text \<open>
  C6 as stated fails: after the first Reporter of a process is constructed and registered,
  with nothing recorded yet, \<open>Register\<close> has succeeded and yet no instrument name is
  visible in a scrape.
\<close>

theorem Register_alone_shows_no_name_counterexample:
  "fst (Register reporter0 (collectors reporter0) started0) = None \<and>
   visible_names (snd (Register reporter0 (collectors reporter0) started0)) = {}"
proof -
  have i: "impl reporter0 = defaultImpl_Register" by (simp add: reporter0_def)
  have fresh: "set (registered_names (lib started0)) \<inter> set (instrument_names reporter0) = {}"
    by (simp add: lib_started registered_names_world0)
  have a: "fst (Register reporter0 (collectors reporter0) started0) = None"
    by (rule Register_default_ok(1) [OF i reporter0_constructed range_order_refl fresh])
  have "series (snd (Register reporter0 (collectors reporter0) started0)) a = []" for a
    by (simp add: Register_series series_started0)
  then have "visible_names (snd (Register reporter0 (collectors reporter0) started0)) = {}"
    using visible_names_iff by blast
  with a show ?thesis by simp
qed

subsection \<open>Start: the fixed endpoint\<close>



subsection \<open>Start and cancellation\<close>

text \<open>
  C8, as amended. \<open>Start\<close> does not read its context: its result is the same for every
  context. With the handler path free it blocks for as long as the listener keeps serving,
  cancelled context or not, and it returns, without an error value, exactly when the
  listener itself stops.
\<close>

theorem Start_ignores_context:
  "Start m ctx e w = Start m ctx' e w \<and>
   (\<not> handler_bound w \<longrightarrow>
      (Start_listen e = Serves \<longrightarrow> fst (Start m ctx e w) = Blocked) \<and>
      (\<forall>res. Start_listen e = Stops res \<longrightarrow> fst (Start m ctx e w) = Returned None))"
proof (cases "handler_bound w")
  case True
  then show ?thesis by (simp add: Start_bound)
next
  case False
  then show ?thesis
    by (simp add: Start_free split: listen.splits option.splits)
qed

theorem Start_ignores_context_witness:
  "\<not> handler_bound started0 \<and> Start_listen env_serving = Serves \<and>
   Start reporter0 \<lparr>cancelled = True\<rparr> env_serving started0 =
     Start reporter0 \<lparr>cancelled = False\<rparr> env_serving started0 \<and>
   fst (Start reporter0 \<lparr>cancelled = True\<rparr> env_serving started0) = Blocked"
proof -
  have serves: "Start_listen env_serving = Serves"
    by (simp add: Start_listen_def env_serving_def)
  from Start_ignores_context
         [of reporter0 "\<lparr>cancelled = True\<rparr>" env_serving started0 "\<lparr>cancelled = False\<rparr>"]
       started0_free serves
  show ?thesis by blast
qed

text \<open>
  C8 as stated fails: with a cancelled context and a listener that keeps serving until its
  server is closed, \<open>Start\<close> does not return.
\<close>

theorem Start_cancelled_counterexample:
  "fst (Start reporter0 \<lparr>cancelled = True\<rparr> env_serving started0) = Blocked \<and>
   fst (Start reporter0 \<lparr>cancelled = True\<rparr> env_serving started0) \<noteq> Returned None"
proof -
  have "Start_listen env_serving = Serves"
    by (simp add: Start_listen_def env_serving_def)
  then show ?thesis using started0_free by (simp add: Start_free)
qed

subsection \<open>Register: no rollback\<close>

text \<open>
  C9. With the default adapter, a failing \<open>Register\<close> undoes nothing: it failed at some
  entry with the duplicate-registration error, and the collectors of the entries visited
  before it have been added to the registry and stay there. Which entries those are
  depends on the order picked by the runtime: in a world where the scan-status identity is
  taken, the order of the literal and its reverse are both possible orders, both calls
  fail, and they leave different registries.
\<close>

theorem Register_keeps_earlier_registrations:
  "(impl m = defaultImpl_Register \<and> fst (Register m order w) = Some er \<longrightarrow>
      (\<exists>pre name c post. order = pre @ (name, c) # post \<and>
         er = Wrapf (DuplicateRegistration (fq c)) (''register collector for '' @ name @ '' metric'') \<and>
         registry (lib (snd (Register m order w))) = registry (lib w) @ map snd pre)) \<and>
   range_order (collectors reporter1) (collectors reporter1) \<and>
   range_order (collectors reporter1) (rev (collectors reporter1)) \<and>
   fst (Register reporter1 (collectors reporter1) contested) \<noteq> None \<and>
   fst (Register reporter1 (rev (collectors reporter1)) contested) \<noteq> None \<and>
   registry (lib (snd (Register reporter1 (collectors reporter1) contested))) \<noteq>
     registry (lib (snd (Register reporter1 (rev (collectors reporter1)) contested)))"
proof -
  have 1: "impl m = defaultImpl_Register \<and> fst (Register m order w) = Some er \<longrightarrow>
      (\<exists>pre name c post. order = pre @ (name, c) # post \<and>
         er = Wrapf (DuplicateRegistration (fq c)) (''register collector for '' @ name @ '' metric'') \<and>
         registry (lib (snd (Register m order w))) = registry (lib w) @ map snd pre)"
    by (intro impI, elim conjE) (rule Register_default_no_rollback)
  have 2: "fst (Register reporter1 (collectors reporter1) contested) \<noteq> None"
    by (simp add: contested_literal_order)
  have 3: "fst (Register reporter1 (rev (collectors reporter1)) contested) \<noteq> None"
    by (simp add: contested_reverse_order)
  have 4: "registry (lib (snd (Register reporter1 (collectors reporter1) contested))) \<noteq>
     registry (lib (snd (Register reporter1 (rev (collectors reporter1)) contested)))"
    by (simp add: contested_literal_order contested_reverse_order)
  from 1 2 3 4 range_order_refl [of reporter1] range_order_rev [of reporter1]
  show ?thesis by (intro conjI)
qed

theorem Register_keeps_earlier_registrations_witness:
  "impl reporter1 = defaultImpl_Register \<and>
   fst (Register reporter1 (collectors reporter1) contested) =
     Some (Wrapf (DuplicateRegistration ''compliance_operator_compliance_scan_status_total'')
             ''register collector for compliance_scan_status_total metric'') \<and>
   (\<exists>pre name c post. collectors reporter1 = pre @ (name, c) # post \<and>
      Wrapf (DuplicateRegistration ''compliance_operator_compliance_scan_status_total'')
             ''register collector for compliance_scan_status_total metric'' =
        Wrapf (DuplicateRegistration (fq c)) (''register collector for '' @ name @ '' metric'') \<and>
      registry (lib (snd (Register reporter1 (collectors reporter1) contested))) =
        registry (lib contested) @ map snd pre) \<and>
   registry (lib (snd (Register reporter1 (collectors reporter1) contested))) =
     [CounterVecCollector (metricComplianceScanStatus (metrics reporter0)),
      CounterVecCollector (metricComplianceScanError (metrics reporter1))]"
proof -
  note hyp = conjI [OF reporter1_impl contested_literal_order(1)]
  note inst = Register_keeps_earlier_registrations
    [THEN conjunct1, THEN mp, OF hyp]
  from reporter1_impl contested_literal_order(1) inst contested_literal_order(2)
  show ?thesis by (intro conjI)
qed

subsection \<open>Start: a second call\<close>

text \<open>
  C10. \<open>Start\<close> panics exactly when \<open>/metrics-co\<close> is already bound on the
  process-global mux. A call that finds the path free gets past \<^verbatim>\<open>http.Handle\<close> and binds
  the path there; after any call the path is bound. Hence, once \<open>Start\<close> has run, in any
  world whose mux still holds the patterns bound by then, a further call of \<open>Start\<close> (by
  any Reporter, with any context and surroundings) panics in \<^verbatim>\<open>http.Handle\<close> on the second
  registration of the pattern: it logs its first line and neither returns a value, an
  error included, nor reaches the listener.
\<close>

theorem Start_twice_panics:
  "(fst (Start m ctx e w) = Panicked \<longleftrightarrow> ''/metrics-co'' \<in> fst ` set (mux w)) \<and>
   (''/metrics-co'' \<notin> fst ` set (mux w) \<longrightarrow>
      mux (snd (Start m ctx e w)) = mux w @ [(''/metrics-co'', promhttp_Handler)]) \<and>
   ''/metrics-co'' \<in> fst ` set (mux (snd (Start m ctx e w))) \<and>
   (set (mux (snd (Start m ctx e w))) \<subseteq> set (mux w') \<longrightarrow>
      Start m' ctx' e' w' =
        (Panicked, log_Info (log m') (Literal ''Starting to serve controller metrics'') w'))"
proof -
  have 1: "fst (Start m ctx e w) = Panicked \<longleftrightarrow> ''/metrics-co'' \<in> fst ` set (mux w)"
    by (simp only: Start_panics_iff handler_bound_literal)
  have 2: "''/metrics-co'' \<notin> fst ` set (mux w) \<longrightarrow>
      mux (snd (Start m ctx e w)) = mux w @ [(''/metrics-co'', promhttp_Handler)]"
    using Start_free_mux [of w m ctx e] by (simp only: handler_bound_literal) blast
  have b: "handler_bound (snd (Start m ctx e w))" by (rule Start_binds_handler)
  then have 3: "''/metrics-co'' \<in> fst ` set (mux (snd (Start m ctx e w)))"
    by (simp only: handler_bound_literal)
  have 4: "set (mux (snd (Start m ctx e w))) \<subseteq> set (mux w') \<longrightarrow>
      Start m' ctx' e' w' =
        (Panicked, log_Info (log m') (Literal ''Starting to serve controller metrics'') w')"
  proof
    assume sub: "set (mux (snd (Start m ctx e w))) \<subseteq> set (mux w')"
    with b have "handler_bound w'"
      unfolding handler_bound_def by blast
    then show "Start m' ctx' e' w' =
        (Panicked, log_Info (log m') (Literal ''Starting to serve controller metrics'') w')"
      by (rule Start_bound)
  qed
  from 1 2 3 4 show ?thesis by (intro conjI)
qed

theorem Start_twice_panics_witness:
  "''/metrics-co'' \<notin> fst ` set (mux started0) \<and>
   fst (Start reporter0 \<lparr>cancelled = False\<rparr> env_no_certificate started0) = Returned None \<and>
   mux (snd (Start reporter0 \<lparr>cancelled = False\<rparr> env_no_certificate started0)) =
     [(''/metrics-co'', promhttp_Handler)] \<and>
   fst (Start reporter0 \<lparr>cancelled = False\<rparr> env_no_certificate
          (snd (Start reporter0 \<lparr>cancelled = False\<rparr> env_no_certificate started0))) = Panicked"
proof -
  note inst = Start_twice_panics
    [of reporter0 "\<lparr>cancelled = False\<rparr>" env_no_certificate started0
        "snd (Start reporter0 \<lparr>cancelled = False\<rparr> env_no_certificate started0)"
        reporter0 "\<lparr>cancelled = False\<rparr>" env_no_certificate]
  have free: "''/metrics-co'' \<notin> fst ` set (mux started0)" by (simp add: mux_started0)
  from inst free have m: "mux (snd (Start reporter0 \<lparr>cancelled = False\<rparr> env_no_certificate started0)) =
     [(''/metrics-co'', promhttp_Handler)]"
    by (simp add: mux_started0)
  from inst have "Start reporter0 \<lparr>cancelled = False\<rparr> env_no_certificate
          (snd (Start reporter0 \<lparr>cancelled = False\<rparr> env_no_certificate started0)) =
     (Panicked, log_Info (log reporter0) (Literal ''Starting to serve controller metrics'')
        (snd (Start reporter0 \<lparr>cancelled = False\<rparr> env_no_certificate started0)))"
    by blast
  then have p: "fst (Start reporter0 \<lparr>cancelled = False\<rparr> env_no_certificate
          (snd (Start reporter0 \<lparr>cancelled = False\<rparr> env_no_certificate started0))) = Panicked"
    by simp
  from free Start_no_certificate_started0 m p show ?thesis by (intro conjI)
qed

end
